theory Spec2Isabelle
  imports Main "HOL-Library.Word"
begin

section \<open>The batching producer of async-kinesis-client\<close>

text \<open>
  A shallow embedding of \<^verbatim>\<open>src/async_kinesis_client/kinesis_producer.py\<close>.
  The class \<^verbatim>\<open>AsyncKinesisProducer\<close> is a record of its fields; every method takes the
  producer and the outside world and returns its result together with the producer and
  the world after the call. An exception is the left injection of the result, and the
  state returned with it is the state the exception leaves behind. Every \<^verbatim>\<open>await\<close> is a
  plain call: the producer has one owner and its methods do not overlap.
\<close>

subsection \<open>Constants\<close>

definition MAX_RECORDS_IN_BATCH :: nat where
  "MAX_RECORDS_IN_BATCH = 500"

definition MAX_RECORD_SIZE :: nat where
  "MAX_RECORD_SIZE = 1024 * 1024"

definition MAX_BATCH_SIZE :: nat where
  "MAX_BATCH_SIZE = 5 * MAX_RECORD_SIZE"

subsection \<open>Data\<close>

type_synonym bytes = "8 word list"

text \<open>
  A datum is the dict that \<^verbatim>\<open>put_records\<close> builds for one record: the key
  \<^verbatim>\<open>'Data'\<close> and one of \<^verbatim>\<open>'ExplicitHashKey'\<close> and \<^verbatim>\<open>'PartitionKey'\<close>. A key that the dict
  does not hold is \<open>None\<close>.
\<close>

record datum =
  d_ExplicitHashKey :: "string option"
  d_PartitionKey :: "string option"
  d_Data :: bytes

text \<open>
  The keyword arguments of the client's \<^verbatim>\<open>put_record\<close>. \<^verbatim>\<open>'SequenceNumberForOrdering'\<close>
  is set only by an ordered producer (outer option), and its value is \<^verbatim>\<open>self.seq\<close>, a
  string or Python's \<^verbatim>\<open>None\<close> (inner option).
\<close>

record put_record_kwargs =
  StreamName :: string
  Data :: bytes
  PartitionKey :: string
  SequenceNumberForOrdering :: "string option option"
  ExplicitHashKey :: "string option"

text \<open>A response of the client is a dict; \<^verbatim>\<open>resp.get(k)\<close> is the lookup \<open>resp k\<close>.\<close>

type_synonym response = "string \<rightharpoonup> string"

datatype error =
  ValueError nat nat nat bytes
  \<comment> \<open>the four arguments formatted into the message of line 96: the record's number,
      \<^verbatim>\<open>MAX_RECORD_SIZE\<close>, the record's size and the record\<close>
| ClientError string
  \<comment> \<open>whatever the client raises; the producer catches nothing\<close>

datatype call =
  PutRecordCall put_record_kwargs
| PutRecordsCall "datum list" string
  \<comment> \<open>\<^verbatim>\<open>Records\<close> and \<^verbatim>\<open>StreamName\<close>\<close>

text \<open>
  The world outside the producer: the requests the client has been sent, oldest first,
  and how often the clock has been read for a default partition key.
\<close>

record world =
  calls :: "call list"
  ticks :: nat

text \<open>
  What the module imports and does not define. \<^verbatim>\<open>_sizeof\<close> comes from
  \<^verbatim>\<open>async_kinesis_client.utils\<close> and is applied to a record (bytes) and to a datum (dict);
  the client comes from aioboto3 and answers a request with a response or raises,
  possibly depending on everything it has been sent before; the default partition key
  is formatted from two clock readings.
\<close>

record env =
  sizeof_bytes :: "bytes \<Rightarrow> nat"
  sizeof_datum :: "datum \<Rightarrow> nat"
  default_partition_key :: "nat \<Rightarrow> string"
  client_put_record :: "call list \<Rightarrow> put_record_kwargs \<Rightarrow> string + response"
  client_put_records :: "call list \<Rightarrow> datum list \<Rightarrow> string \<Rightarrow> string + response"

record producer =
  stream_name :: string
  ordered :: bool
  seq :: "string option"
  record_buf :: "datum list"
  buf_size :: nat

subsection \<open>Operations\<close>

text \<open>\<^verbatim>\<open>__init__\<close> (lines 24 to 36); \<^verbatim>\<open>ordered\<close> defaults to \<^verbatim>\<open>True\<close> at the call site.\<close>

definition init :: "string \<Rightarrow> bool \<Rightarrow> producer" where
  "init sn ord =
     \<lparr>stream_name = sn, ordered = ord, seq = Some ''0'', record_buf = [], buf_size = 0\<rparr>"

text \<open>\<^verbatim>\<open>_get_default_partition_key\<close> (lines 18 and 19).\<close>

definition get_default_partition_key :: "env \<Rightarrow> world \<Rightarrow> string \<times> world" where
  "get_default_partition_key E w =
     (default_partition_key E (ticks w), w\<lparr>ticks := Suc (ticks w)\<rparr>)"

text \<open>Python's truth value of an optional string: \<^verbatim>\<open>None\<close> and \<^verbatim>\<open>''\<close> are false.\<close>

fun truthy :: "string option \<Rightarrow> bool" where
  "truthy None = False"
| "truthy (Some s) = (s \<noteq> [])"

text \<open>
  The keyword arguments that \<^verbatim>\<open>put_record\<close> builds (lines 49 to 63). A partition key
  of \<^verbatim>\<open>None\<close> is replaced by a default key in line 50, an empty one in line 61.
\<close>

definition build_kwargs ::
  "env \<Rightarrow> bytes \<Rightarrow> string option \<Rightarrow> string option \<Rightarrow> producer \<Rightarrow> world
     \<Rightarrow> put_record_kwargs \<times> world" where
  "build_kwargs E record partition_key explicit_hash_key p w =
     (case (case partition_key of
              None \<Rightarrow> get_default_partition_key E w
            | Some k \<Rightarrow> (k, w)) of
        (partition_key1, w1) \<Rightarrow>
          (case (if partition_key1 \<noteq> [] then (partition_key1, w1)
                 else get_default_partition_key E w1) of
             (partition_key2, w2) \<Rightarrow>
               (\<lparr>StreamName = stream_name p,
                 Data = record,
                 PartitionKey = partition_key2,
                 SequenceNumberForOrdering = (if ordered p then Some (seq p) else None),
                 ExplicitHashKey =
                   (if truthy explicit_hash_key then explicit_hash_key else None)\<rparr>,
                w2)))"

text \<open>\<^verbatim>\<open>put_record\<close> (lines 40 to 68).\<close>

definition put_record ::
  "env \<Rightarrow> bytes \<Rightarrow> string option \<Rightarrow> string option \<Rightarrow> producer \<times> world
     \<Rightarrow> (error + response) \<times> producer \<times> world" where
  "put_record E record partition_key explicit_hash_key pw =
     (case pw of (p, w) \<Rightarrow>
        (case build_kwargs E record partition_key explicit_hash_key p w of
           (kwargs, w2) \<Rightarrow>
             let w3 = w2\<lparr>calls := calls w2 @ [PutRecordCall kwargs]\<rparr>
             in (case client_put_record E (calls w2) kwargs of
                   Inl e \<Rightarrow> (Inl (ClientError e), p, w3)
                 | Inr resp \<Rightarrow>
                     (Inr resp,
                      (if ordered p then p\<lparr>seq := resp ''SequenceNumber''\<rparr> else p),
                      w3))))"

text \<open>\<^verbatim>\<open>flush\<close> (lines 118 to 129); the bare \<^verbatim>\<open>return\<close> of line 121 returns \<^verbatim>\<open>None\<close>.\<close>

definition flush ::
  "env \<Rightarrow> producer \<times> world \<Rightarrow> (error + response option) \<times> producer \<times> world" where
  "flush E pw =
     (case pw of (p, w) \<Rightarrow>
        if length (record_buf p) = 0 then (Inr None, p, w)
        else
          let w1 = w\<lparr>calls := calls w @ [PutRecordsCall (record_buf p) (stream_name p)]\<rparr>
          in (case client_put_records E (calls w) (record_buf p) (stream_name p) of
                Inl e \<Rightarrow> (Inl (ClientError e), p, w1)
              | Inr resp \<Rightarrow> (Inr (Some resp), p\<lparr>record_buf := [], buf_size := 0\<rparr>, w1)))"

text \<open>\<^verbatim>\<open>resp.append(await self.flush())\<close> (lines 89 and 110).\<close>

definition flush_append ::
  "env \<Rightarrow> response option list \<Rightarrow> producer \<times> world
     \<Rightarrow> (error + response option list) \<times> producer \<times> world" where
  "flush_append E resp pw =
     (case flush E pw of
        (Inl e, pw') \<Rightarrow> (Inl e, pw')
      | (Inr fr, pw') \<Rightarrow> (Inr (resp @ [fr]), pw'))"

text \<open>The datum of one record (lines 99 to 106).\<close>

definition make_datum ::
  "env \<Rightarrow> string option \<Rightarrow> string option \<Rightarrow> bytes \<Rightarrow> world \<Rightarrow> datum \<times> world" where
  "make_datum E partition_key explicit_hash_key r w =
     (if truthy explicit_hash_key
      then (\<lparr>d_ExplicitHashKey = explicit_hash_key, d_PartitionKey = None, d_Data = r\<rparr>, w)
      else if truthy partition_key
      then (\<lparr>d_ExplicitHashKey = None, d_PartitionKey = partition_key, d_Data = r\<rparr>, w)
      else (case get_default_partition_key E w of
              (k, w') \<Rightarrow>
                (\<lparr>d_ExplicitHashKey = None, d_PartitionKey = Some k, d_Data = r\<rparr>, w')))"

text \<open>The check of the record count (lines 88 and 89).\<close>

definition flush_if_full ::
  "env \<Rightarrow> response option list \<Rightarrow> producer \<times> world
     \<Rightarrow> (error + response option list) \<times> producer \<times> world" where
  "flush_if_full E resp pw =
     (if length (record_buf (fst pw)) = MAX_RECORDS_IN_BATCH
      then flush_append E resp pw else (Inr resp, pw))"

text \<open>
  Building the datum of a record that has passed the size check, the check of the batch
  size, and the append to the buffer (lines 99 to 113).
\<close>

definition add_datum ::
  "env \<Rightarrow> string option \<Rightarrow> string option \<Rightarrow> bytes \<Rightarrow> response option list
     \<Rightarrow> producer \<times> world \<Rightarrow> (error + response option list) \<times> producer \<times> world" where
  "add_datum E partition_key explicit_hash_key r resp pw =
     (case pw of (p, w) \<Rightarrow>
        (case make_datum E partition_key explicit_hash_key r w of
           (datum, w2) \<Rightarrow>
             let datum_size = sizeof_datum E datum in
             (case (if buf_size p + datum_size > MAX_BATCH_SIZE
                    then flush_append E resp (p, w2) else (Inr resp, p, w2)) of
                (Inl e, pw3) \<Rightarrow> (Inl e, pw3)
              | (Inr resp3, p3, w3) \<Rightarrow>
                  (Inr resp3,
                   p3\<lparr>record_buf := record_buf p3 @ [datum],
                      buf_size := buf_size p3 + datum_size\<rparr>,
                   w3))))"

text \<open>
  The body of the loop of \<^verbatim>\<open>put_records\<close> for the record \<open>r\<close> (lines 88 to 114), with
  the local variables \<^verbatim>\<open>resp\<close> and \<^verbatim>\<open>n\<close> as arguments; the caller adds one to \<^verbatim>\<open>n\<close>.
\<close>

definition put_records_item ::
  "env \<Rightarrow> string option \<Rightarrow> string option \<Rightarrow> bytes \<Rightarrow> response option list \<Rightarrow> nat
     \<Rightarrow> producer \<times> world \<Rightarrow> (error + response option list) \<times> producer \<times> world" where
  "put_records_item E partition_key explicit_hash_key r resp n pw =
     (case flush_if_full E resp pw of
        (Inl e, pw1) \<Rightarrow> (Inl e, pw1)
      | (Inr resp1, pw1) \<Rightarrow>
          let record_size = sizeof_bytes E r in
          if record_size > MAX_RECORD_SIZE
          then (Inl (ValueError n MAX_RECORD_SIZE record_size r), pw1)
          else add_datum E partition_key explicit_hash_key r resp1 pw1)"

text \<open>The loop of \<^verbatim>\<open>put_records\<close> over the records that are left.\<close>

fun put_records_loop ::
  "env \<Rightarrow> string option \<Rightarrow> string option \<Rightarrow> bytes list \<Rightarrow> response option list \<Rightarrow> nat
     \<Rightarrow> producer \<times> world \<Rightarrow> (error + response option list) \<times> producer \<times> world" where
  "put_records_loop E partition_key explicit_hash_key [] resp n pw = (Inr resp, pw)"
| "put_records_loop E partition_key explicit_hash_key (r # rs) resp n pw =
     (case put_records_item E partition_key explicit_hash_key r resp n pw of
        (Inl e, pw') \<Rightarrow> (Inl e, pw')
      | (Inr resp', pw') \<Rightarrow>
          put_records_loop E partition_key explicit_hash_key rs resp' (n + 1) pw')"

text \<open>\<^verbatim>\<open>put_records\<close> (lines 70 to 116).\<close>

definition put_records ::
  "env \<Rightarrow> bytes list \<Rightarrow> string option \<Rightarrow> string option \<Rightarrow> producer \<times> world
     \<Rightarrow> (error + response option list) \<times> producer \<times> world" where
  "put_records E records partition_key explicit_hash_key pw =
     put_records_loop E partition_key explicit_hash_key records [] 1 pw"

subsection \<open>Runs of calls and what the client has seen\<close>

text \<open>
  Consecutive \<^verbatim>\<open>put_record\<close> calls, one per argument triple, up to the first that raises;
  the responses are collected in the order of the calls.
\<close>

fun put_record_series ::
  "env \<Rightarrow> (bytes \<times> string option \<times> string option) list \<Rightarrow> producer \<times> world
     \<Rightarrow> (error + response list) \<times> producer \<times> world" where
  "put_record_series E [] pw = (Inr [], pw)"
| "put_record_series E ((r, pk, ehk) # rest) pw =
     (case put_record E r pk ehk pw of
        (Inl e, pw') \<Rightarrow> (Inl e, pw')
      | (Inr resp, pw') \<Rightarrow>
          (case put_record_series E rest pw' of
             (Inl e, pw'') \<Rightarrow> (Inl e, pw'')
           | (Inr resps, pw'') \<Rightarrow> (Inr (resp # resps), pw'')))"

text \<open>Consecutive \<^verbatim>\<open>put_records\<close> calls, up to the first that raises.\<close>

fun put_records_series ::
  "env \<Rightarrow> (bytes list \<times> string option \<times> string option) list \<Rightarrow> producer \<times> world
     \<Rightarrow> (error + response option list list) \<times> producer \<times> world" where
  "put_records_series E [] pw = (Inr [], pw)"
| "put_records_series E ((rs, pk, ehk) # rest) pw =
     (case put_records E rs pk ehk pw of
        (Inl e, pw') \<Rightarrow> (Inl e, pw')
      | (Inr resp, pw') \<Rightarrow>
          (case put_records_series E rest pw' of
             (Inl e, pw'') \<Rightarrow> (Inl e, pw'')
           | (Inr resps, pw'') \<Rightarrow> (Inr (resp # resps), pw'')))"

text \<open>The records of all batches the client has been sent, in the order it saw them.\<close>

fun records_sent :: "call \<Rightarrow> datum list" where
  "records_sent (PutRecordCall kw) = []"
| "records_sent (PutRecordsCall ds sn) = ds"

definition batched :: "world \<Rightarrow> datum list" where
  "batched w = concat (map records_sent (calls w))"

text \<open>The client answers every batch request with a response.\<close>

definition put_records_succeeds :: "env \<Rightarrow> bool" where
  "put_records_succeeds E \<longleftrightarrow> (\<forall>log ds sn. \<exists>resp. client_put_records E log ds sn = Inr resp)"

text \<open>The datums that lines 99 to 106 build for a list of records, one after the other.\<close>

fun make_datums ::
  "env \<Rightarrow> string option \<Rightarrow> string option \<Rightarrow> bytes list \<Rightarrow> world \<Rightarrow> datum list \<times> world" where
  "make_datums E pk ehk [] w = ([], w)"
| "make_datums E pk ehk (r # rs) w =
     (case make_datum E pk ehk r w of
        (d, w1) \<Rightarrow>
          (case make_datums E pk ehk rs w1 of
             (ds, w2) \<Rightarrow> (d # ds, w2)))"

text \<open>
  The states a producer can be in between two calls: a new producer, and the state that
  a public method leaves behind, whether it returns or raises.
\<close>

inductive reachable :: "env \<Rightarrow> producer \<times> world \<Rightarrow> bool" for E :: env where
  reach_init: "reachable E (init sn ord, w)"
| reach_put_record: "reachable E pw \<Longrightarrow> reachable E (snd (put_record E r pk ehk pw))"
| reach_put_records: "reachable E pw \<Longrightarrow> reachable E (snd (put_records E rs pk ehk pw))"
| reach_flush: "reachable E pw \<Longrightarrow> reachable E (snd (flush E pw))"

text \<open>
  What the buffer keeps between calls: the running size is the sum of the sizes of the
  buffered datums, there are at most \<^verbatim>\<open>MAX_RECORDS_IN_BATCH\<close> of them, and the running
  size is within \<^verbatim>\<open>MAX_BATCH_SIZE\<close> unless the buffer holds a single datum.
\<close>

definition buffer_inv :: "env \<Rightarrow> producer \<Rightarrow> bool" where
  "buffer_inv E p \<longleftrightarrow>
     buf_size p = sum_list (map (sizeof_datum E) (record_buf p)) \<and>
     length (record_buf p) \<le> MAX_RECORDS_IN_BATCH \<and>
     (buf_size p \<le> MAX_BATCH_SIZE \<or> length (record_buf p) = 1)"

subsection \<open>A concrete environment\<close>

text \<open>
  Modelled from the spec: \<^verbatim>\<open>_sizeof\<close>, which \<^verbatim>\<open>async_kinesis_client.utils\<close> defines and
  the sources at hand do not hold. Section 3 of the spec: the size of a datum "is the sum
  of payload length and key length"; a record is its payload.
\<close>

definition spec_sizeof_bytes :: "bytes \<Rightarrow> nat" where
  "spec_sizeof_bytes r = length r"

definition spec_sizeof_datum :: "datum \<Rightarrow> nat" where
  "spec_sizeof_datum d =
     length (d_Data d)
     + (case d_ExplicitHashKey d of None \<Rightarrow> 0 | Some k \<Rightarrow> length k)
     + (case d_PartitionKey d of None \<Rightarrow> 0 | Some k \<Rightarrow> length k)"

text \<open>
  An environment to run the producer in: the sizes of the spec, a clock whose \<open>n\<close>-th
  default key is \<open>t\<close> followed by \<open>n\<close> strokes, and a client that numbers the single
  records in strokes and accepts every batch.
\<close>

definition test_env :: env where
  "test_env =
     \<lparr>sizeof_bytes = spec_sizeof_bytes,
      sizeof_datum = spec_sizeof_datum,
      default_partition_key = (\<lambda>n. CHR ''t'' # replicate n CHR ''1''),
      client_put_record =
        (\<lambda>log kw. Inr [''SequenceNumber'' \<mapsto> replicate (Suc (length log)) CHR ''1'']),
      client_put_records = (\<lambda>log ds sn. Inr [''FailedRecordCount'' \<mapsto> ''0''])\<rparr>"

text \<open>The same environment with a client that raises on every request.\<close>

definition failing_env :: env where
  "failing_env =
     test_env\<lparr>client_put_record := (\<lambda>log kw. Inl ''InternalFailure''),
              client_put_records := (\<lambda>log ds sn. Inl ''InternalFailure'')\<rparr>"

definition new_world :: world where
  "new_world = \<lparr>calls = [], ticks = 0\<rparr>"


section \<open>Properties\<close>

subsection \<open>Facts about the single operations\<close>

lemma build_kwargs_buffer:
  "build_kwargs E r pk ehk (p\<lparr>record_buf := b, buf_size := s\<rparr>) w = build_kwargs E r pk ehk p w"
  by (simp add: build_kwargs_def)

lemma build_kwargs_token:
  "SequenceNumberForOrdering (fst (build_kwargs E r pk ehk p w)) =
     (if ordered p then Some (seq p) else None)"
  by (simp add: build_kwargs_def split: prod.split)

lemma build_kwargs_calls:
  "calls (snd (build_kwargs E r pk ehk p w)) = calls w"
  by (simp add: build_kwargs_def get_default_partition_key_def split: option.split)

lemma put_record_Inr:
  assumes "put_record E r pk ehk (p, w) = (Inr resp, p', w')"
  shows "\<exists>kw. calls w' = calls w @ [PutRecordCall kw] \<and>
           SequenceNumberForOrdering kw = (if ordered p then Some (seq p) else None) \<and>
           seq p' = (if ordered p then resp ''SequenceNumber'' else seq p) \<and>
           ordered p' = ordered p"
proof -
  obtain kw w2 where bk: "build_kwargs E r pk ehk p w = (kw, w2)"
    by (cases "build_kwargs E r pk ehk p w")
  have c: "calls w2 = calls w"
    using build_kwargs_calls [of E r pk ehk p w] bk by simp
  have t: "SequenceNumberForOrdering kw = (if ordered p then Some (seq p) else None)"
    using build_kwargs_token [of E r pk ehk p w] bk by simp
  from assms bk c have "calls w' = calls w @ [PutRecordCall kw]"
    by (auto simp: put_record_def Let_def split: sum.splits if_splits)
  moreover from assms bk have "seq p' = (if ordered p then resp ''SequenceNumber'' else seq p)"
    by (auto simp: put_record_def Let_def split: sum.splits if_splits)
  moreover from assms bk have "ordered p' = ordered p"
    by (auto simp: put_record_def Let_def split: sum.splits if_splits)
  ultimately show ?thesis using t by blast
qed

lemma put_record_series_tokens:
  assumes "put_record_series E args (p, w) = (Inr resps, p', w')"
  shows "\<exists>kws. calls w' = calls w @ map PutRecordCall kws \<and>
           length resps = length args \<and>
           map SequenceNumberForOrdering kws =
             (if ordered p
              then map Some (butlast (seq p # map (\<lambda>resp. resp ''SequenceNumber'') resps))
              else replicate (length args) None) \<and>
           seq p' =
             (if ordered p then last (seq p # map (\<lambda>resp. resp ''SequenceNumber'') resps)
              else seq p)"
  using assms
proof (induction args arbitrary: p w resps)
  case Nil
  then show ?case by simp
next
  case (Cons a args)
  obtain r pk ehk where a: "a = (r, pk, ehk)"
    by (cases a)
  from Cons.prems a obtain resp p1 w1 rest where
    one: "put_record E r pk ehk (p, w) = (Inr resp, p1, w1)" and
    more: "put_record_series E args (p1, w1) = (Inr rest, p', w')" and
    resps: "resps = resp # rest"
    by (auto split: prod.splits sum.splits)
  from put_record_Inr [OF one] obtain kw where
    kw: "calls w1 = calls w @ [PutRecordCall kw]"
      "SequenceNumberForOrdering kw = (if ordered p then Some (seq p) else None)"
      "seq p1 = (if ordered p then resp ''SequenceNumber'' else seq p)"
      "ordered p1 = ordered p"
    by blast
  from Cons.IH [OF more] obtain kws where
    kws: "calls w' = calls w1 @ map PutRecordCall kws"
      "length rest = length args"
      "map SequenceNumberForOrdering kws =
         (if ordered p1
          then map Some (butlast (seq p1 # map (\<lambda>resp. resp ''SequenceNumber'') rest))
          else replicate (length args) None)"
      "seq p' =
         (if ordered p1 then last (seq p1 # map (\<lambda>resp. resp ''SequenceNumber'') rest)
          else seq p1)"
    by blast
  have "calls w' = calls w @ map PutRecordCall (kw # kws)"
    using kw(1) kws(1) by simp
  moreover have "length resps = length (a # args)"
    using resps kws(2) by simp
  moreover have "map SequenceNumberForOrdering (kw # kws) =
             (if ordered p
              then map Some (butlast (seq p # map (\<lambda>resp. resp ''SequenceNumber'') resps))
              else replicate (length (a # args)) None)"
    using kw(2,3,4) kws(3) resps by simp
  moreover have "seq p' =
             (if ordered p then last (seq p # map (\<lambda>resp. resp ''SequenceNumber'') resps)
              else seq p)"
    using kw(3,4) kws(4) resps by simp
  ultimately show ?case by blast
qed


subsection \<open>Flushing\<close>

text \<open>
  C9. On a producer whose buffer is empty, \<^verbatim>\<open>flush\<close> sends the client nothing, returns
  \<^verbatim>\<open>None\<close> and leaves the producer as it is; and whatever the buffer holds, a batch
  request that \<^verbatim>\<open>flush\<close> adds to the client's log is never an empty batch.
\<close>

theorem flush_empty_is_noop:
  "(record_buf p = [] \<longrightarrow> flush E (p, w) = (Inr None, p, w)) \<and>
   (\<forall>ds sn. calls (snd (snd (flush E (p, w)))) = calls w @ [PutRecordsCall ds sn] \<longrightarrow> ds \<noteq> [])"
  by (auto simp: flush_def Let_def split: sum.splits)

theorem flush_empty_is_noop_witness:
  "record_buf (init ''orders'' True) = [] \<and>
   flush test_env (init ''orders'' True, new_world) = (Inr None, init ''orders'' True, new_world)"
proof -
  have h: "record_buf (init ''orders'' True) = []"
    by (simp add: init_def)
  from flush_empty_is_noop [of "init ''orders'' True" test_env new_world] h
  show ?thesis by blast
qed

text \<open>
  C3. \<^verbatim>\<open>flush\<close> on a buffer that is not empty: when the client raises, the exception
  reaches the caller and the producer is exactly as before (only the client has seen the
  request); when the client answers, the buffer is emptied and the size set to zero. So a
  second \<^verbatim>\<open>flush\<close> after a failed one sends the same records again, and clears the
  buffer if it succeeds.
\<close>

theorem flush_failure_keeps_buffer:
  assumes "record_buf p \<noteq> []"
  shows
    "(client_put_records E (calls w) (record_buf p) (stream_name p) = Inl e \<longrightarrow>
        flush E (p, w) =
          (Inl (ClientError e), p,
           w\<lparr>calls := calls w @ [PutRecordsCall (record_buf p) (stream_name p)]\<rparr>)) \<and>
     (client_put_records E (calls w) (record_buf p) (stream_name p) = Inr resp \<longrightarrow>
        flush E (p, w) =
          (Inr (Some resp), p\<lparr>record_buf := [], buf_size := 0\<rparr>,
           w\<lparr>calls := calls w @ [PutRecordsCall (record_buf p) (stream_name p)]\<rparr>)) \<and>
     (client_put_records E (calls w) (record_buf p) (stream_name p) = Inl e \<and>
      client_put_records E (calls w @ [PutRecordsCall (record_buf p) (stream_name p)])
        (record_buf p) (stream_name p) = Inr resp \<longrightarrow>
        fst (flush E (snd (flush E (p, w)))) = Inr (Some resp) \<and>
        fst (snd (flush E (snd (flush E (p, w))))) = p\<lparr>record_buf := [], buf_size := 0\<rparr> \<and>
        calls (snd (snd (flush E (snd (flush E (p, w)))))) =
          calls w @ [PutRecordsCall (record_buf p) (stream_name p),
                     PutRecordsCall (record_buf p) (stream_name p)])"
  using assms by (simp add: flush_def Let_def)

theorem flush_failure_keeps_buffer_witness:
  "record_buf ((init ''orders'' True)
      \<lparr>record_buf := [\<lparr>d_ExplicitHashKey = None, d_PartitionKey = Some ''k'', d_Data = [1, 2]\<rparr>],
       buf_size := 3\<rparr>) \<noteq> [] \<and>
   flush failing_env
     ((init ''orders'' True)
        \<lparr>record_buf := [\<lparr>d_ExplicitHashKey = None, d_PartitionKey = Some ''k'', d_Data = [1, 2]\<rparr>],
         buf_size := 3\<rparr>, new_world) =
     (Inl (ClientError ''InternalFailure''),
      (init ''orders'' True)
        \<lparr>record_buf := [\<lparr>d_ExplicitHashKey = None, d_PartitionKey = Some ''k'', d_Data = [1, 2]\<rparr>],
         buf_size := 3\<rparr>,
      \<lparr>calls =
         [PutRecordsCall
            [\<lparr>d_ExplicitHashKey = None, d_PartitionKey = Some ''k'', d_Data = [1, 2]\<rparr>] ''orders''],
       ticks = 0\<rparr>)"
proof -
  let ?p = "(init ''orders'' True)
      \<lparr>record_buf := [\<lparr>d_ExplicitHashKey = None, d_PartitionKey = Some ''k'', d_Data = [1, 2]\<rparr>],
       buf_size := 3\<rparr>"
  have h: "record_buf ?p \<noteq> []"
    by simp
  have c: "client_put_records failing_env (calls new_world) (record_buf ?p) (stream_name ?p) =
      Inl ''InternalFailure''"
    by (simp add: failing_env_def)
  from flush_failure_keeps_buffer [OF h, of failing_env new_world "''InternalFailure''"] c
  have "flush failing_env (?p, new_world) =
          (Inl (ClientError ''InternalFailure''), ?p,
           new_world\<lparr>calls := calls new_world @ [PutRecordsCall (record_buf ?p) (stream_name ?p)]\<rparr>)"
    by blast
  then show ?thesis
    using h by (simp add: new_world_def init_def)
qed

subsection \<open>Single records\<close>

text \<open>
  C10. \<^verbatim>\<open>put_record\<close> neither reads nor writes the buffer: whether the client answers or
  raises, \<^verbatim>\<open>record_buf\<close> and \<^verbatim>\<open>buf_size\<close> are after the call what they were before;
  with any other buffer \<open>b\<close> and size \<open>s\<close> in their place the call has the same result
  and the same effect on everything else; and the one request the client is sent is a
  single-record request, never a batch.
\<close>

theorem put_record_leaves_buffer:
  "record_buf (fst (snd (put_record E r pk ehk (p, w)))) = record_buf p \<and>
   buf_size (fst (snd (put_record E r pk ehk (p, w)))) = buf_size p \<and>
   put_record E r pk ehk (p\<lparr>record_buf := b, buf_size := s\<rparr>, w) =
     (fst (put_record E r pk ehk (p, w)),
      (fst (snd (put_record E r pk ehk (p, w))))\<lparr>record_buf := b, buf_size := s\<rparr>,
      snd (snd (put_record E r pk ehk (p, w)))) \<and>
   (\<exists>kw. calls (snd (snd (put_record E r pk ehk (p, w)))) = calls w @ [PutRecordCall kw])"
proof -
  obtain kw w2 where bk: "build_kwargs E r pk ehk p w = (kw, w2)"
    by (cases "build_kwargs E r pk ehk p w")
  have c: "calls w2 = calls w"
    using build_kwargs_calls [of E r pk ehk p w] bk by simp
  show ?thesis
  proof (cases "client_put_record E (calls w2) kw")
    case (Inl e)
    then show ?thesis
      using bk c by (simp add: put_record_def build_kwargs_buffer)
  next
    case (Inr resp)
    then show ?thesis
      using bk c by (simp add: put_record_def build_kwargs_buffer)
  qed
qed

text \<open>
  C8. Consecutive \<^verbatim>\<open>put_record\<close> calls that all succeed. On an ordered producer the
  request of the first call carries the stored token (\<^verbatim>\<open>'0'\<close> on a new producer) and the
  request of every later call carries the \<^verbatim>\<open>'SequenceNumber'\<close> of the response to the
  call before it; the stored token ends as that of the last response. On an unordered
  producer no request carries a token and the stored token stays as it is.
\<close>

theorem ordering_token_chain:
  assumes "put_record_series E args (p, w) = (Inr resps, p', w')"
  shows "seq (init sn ord) = Some ''0'' \<and>
         (\<exists>kws. calls w' = calls w @ map PutRecordCall kws \<and>
            length kws = length args \<and> length resps = length args \<and>
            (ordered p \<longrightarrow>
               (\<forall>i < length args.
                  SequenceNumberForOrdering (kws ! i) =
                    Some (if i = 0 then seq p else (resps ! (i - 1)) ''SequenceNumber'')) \<and>
               seq p' = (if args = [] then seq p else (last resps) ''SequenceNumber'')) \<and>
            (\<not> ordered p \<longrightarrow>
               (\<forall>i < length args. SequenceNumberForOrdering (kws ! i) = None) \<and>
               seq p' = seq p))"
proof -
  from put_record_series_tokens [OF assms] obtain kws where
    kws: "calls w' = calls w @ map PutRecordCall kws"
      "length resps = length args"
      "map SequenceNumberForOrdering kws =
         (if ordered p
          then map Some (butlast (seq p # map (\<lambda>resp. resp ''SequenceNumber'') resps))
          else replicate (length args) None)"
      "seq p' =
         (if ordered p then last (seq p # map (\<lambda>resp. resp ''SequenceNumber'') resps)
          else seq p)"
    by blast
  have len: "length kws = length args"
  proof -
    have "length (butlast (seq p # map (\<lambda>resp. resp ''SequenceNumber'') resps)) = length resps"
      by (simp only: length_butlast length_Cons length_map diff_Suc_1)
    then have "length (map SequenceNumberForOrdering kws) = length args"
      using kws(2) by (simp only: kws(3) length_map length_replicate if_distrib [of length] if_cancel)
    then show ?thesis by simp
  qed
  have ord: "SequenceNumberForOrdering (kws ! i) =
        Some (if i = 0 then seq p else (resps ! (i - 1)) ''SequenceNumber'')"
    if "ordered p" "i < length args" for i
  proof -
    have "SequenceNumberForOrdering (kws ! i) = map SequenceNumberForOrdering kws ! i"
      using that len by simp
    also have "\<dots> = map Some (butlast (seq p # map (\<lambda>resp. resp ''SequenceNumber'') resps)) ! i"
      using that kws(3) by simp
    also have "\<dots> = Some ((seq p # map (\<lambda>resp. resp ''SequenceNumber'') resps) ! i)"
    proof -
      have "i < length (butlast (seq p # map (\<lambda>resp. resp ''SequenceNumber'') resps))"
        using that kws(2) by (simp only: length_butlast length_Cons length_map diff_Suc_1)
      then show ?thesis
        by (simp only: nth_map nth_butlast)
    qed
    also have "\<dots> = Some (if i = 0 then seq p else (resps ! (i - 1)) ''SequenceNumber'')"
      using that kws(2) by (cases i) simp_all
    finally show ?thesis .
  qed
  have unord: "SequenceNumberForOrdering (kws ! i) = None"
    if "\<not> ordered p" "i < length args" for i
  proof -
    have "SequenceNumberForOrdering (kws ! i) = map SequenceNumberForOrdering kws ! i"
      using that len by simp
    also have "\<dots> = None"
      using that kws(3) by simp
    finally show ?thesis .
  qed
  have fin: "seq p' = (if args = [] then seq p else (last resps) ''SequenceNumber'')"
    if "ordered p"
  proof (cases "args = []")
    case True
    then show ?thesis using that kws(2,4) by simp
  next
    case False
    then have "resps \<noteq> []" using kws(2) by auto
    then show ?thesis using that kws(4) False by (simp add: last_map)
  qed
  have "seq (init sn ord) = Some ''0''"
    by (simp add: init_def)
  then show ?thesis
    using kws(1,2,4) len ord unord fin by auto
qed


theorem ordering_token_chain_witness:
  "put_record_series test_env
     [([1], None, None), ([2], Some ''k'', None), ([3], None, Some ''7'')]
     (init ''orders'' True, new_world) =
     (Inr [[''SequenceNumber'' \<mapsto> ''1''], [''SequenceNumber'' \<mapsto> ''11''],
           [''SequenceNumber'' \<mapsto> ''111'']],
      (init ''orders'' True)\<lparr>seq := Some ''111''\<rparr>,
      \<lparr>calls =
         [PutRecordCall \<lparr>StreamName = ''orders'', Data = [1], PartitionKey = ''t'',
            SequenceNumberForOrdering = Some (Some ''0''), ExplicitHashKey = None\<rparr>,
          PutRecordCall \<lparr>StreamName = ''orders'', Data = [2], PartitionKey = ''k'',
            SequenceNumberForOrdering = Some (Some ''1''), ExplicitHashKey = None\<rparr>,
          PutRecordCall \<lparr>StreamName = ''orders'', Data = [3], PartitionKey = ''t1'',
            SequenceNumberForOrdering = Some (Some ''11''), ExplicitHashKey = Some ''7''\<rparr>],
       ticks = 2\<rparr>) \<and>
   seq (init ''orders'' True) = Some ''0'' \<and>
   seq ((init ''orders'' True)\<lparr>seq := Some ''111''\<rparr>) =
     (last [[''SequenceNumber'' \<mapsto> ''1''], [''SequenceNumber'' \<mapsto> ''11''],
            [''SequenceNumber'' \<mapsto> ''111'']]) ''SequenceNumber''"
proof -
  have run: "put_record_series test_env
     [([1], None, None), ([2], Some ''k'', None), ([3], None, Some ''7'')]
     (init ''orders'' True, new_world) =
     (Inr [[''SequenceNumber'' \<mapsto> ''1''], [''SequenceNumber'' \<mapsto> ''11''],
           [''SequenceNumber'' \<mapsto> ''111'']],
      (init ''orders'' True)\<lparr>seq := Some ''111''\<rparr>,
      \<lparr>calls =
         [PutRecordCall \<lparr>StreamName = ''orders'', Data = [1], PartitionKey = ''t'',
            SequenceNumberForOrdering = Some (Some ''0''), ExplicitHashKey = None\<rparr>,
          PutRecordCall \<lparr>StreamName = ''orders'', Data = [2], PartitionKey = ''k'',
            SequenceNumberForOrdering = Some (Some ''1''), ExplicitHashKey = None\<rparr>,
          PutRecordCall \<lparr>StreamName = ''orders'', Data = [3], PartitionKey = ''t1'',
            SequenceNumberForOrdering = Some (Some ''11''), ExplicitHashKey = Some ''7''\<rparr>],
       ticks = 2\<rparr>)"
    by (simp add: test_env_def new_world_def init_def put_record_def build_kwargs_def
        get_default_partition_key_def)
  have ord: "ordered (init ''orders'' True)"
    by (simp add: init_def)
  from ordering_token_chain [OF run, of "''orders''" True] ord
  have "seq (init ''orders'' True) = Some ''0'' \<and>
        seq ((init ''orders'' True)\<lparr>seq := Some ''111''\<rparr>) =
          (last [[''SequenceNumber'' \<mapsto> ''1''], [''SequenceNumber'' \<mapsto> ''11''],
                 [''SequenceNumber'' \<mapsto> ''111'']]) ''SequenceNumber''"
    by auto
  with run show ?thesis by blast
qed

subsection \<open>Facts about flush\<close>

lemma flush_empty:
  "record_buf p = [] \<Longrightarrow> flush E (p, w) = (Inr None, p, w)"
  by (simp add: flush_def)

lemma flush_raises:
  "record_buf p \<noteq> [] \<Longrightarrow>
   client_put_records E (calls w) (record_buf p) (stream_name p) = Inl e \<Longrightarrow>
   flush E (p, w) =
     (Inl (ClientError e), p,
      w\<lparr>calls := calls w @ [PutRecordsCall (record_buf p) (stream_name p)]\<rparr>)"
  by (simp add: flush_def Let_def)

lemma flush_returns:
  "record_buf p \<noteq> [] \<Longrightarrow>
   client_put_records E (calls w) (record_buf p) (stream_name p) = Inr resp \<Longrightarrow>
   flush E (p, w) =
     (Inr (Some resp), p\<lparr>record_buf := [], buf_size := 0\<rparr>,
      w\<lparr>calls := calls w @ [PutRecordsCall (record_buf p) (stream_name p)]\<rparr>)"
  by (simp add: flush_def Let_def)

lemma flush_outcome:
  assumes "flush E (p, w) = (res, p', w')"
  shows "(record_buf p = [] \<and> res = Inr None \<and> p' = p \<and> w' = w) \<or>
         (record_buf p \<noteq> [] \<and>
          w' = w\<lparr>calls := calls w @ [PutRecordsCall (record_buf p) (stream_name p)]\<rparr> \<and>
          ((\<exists>e. res = Inl (ClientError e) \<and> p' = p) \<or>
           (\<exists>resp. res = Inr (Some resp) \<and> p' = p\<lparr>record_buf := [], buf_size := 0\<rparr>)))"
proof (cases "record_buf p = []")
  case True
  with assms show ?thesis by (auto simp: flush_empty)
next
  case False
  show ?thesis
  proof (cases "client_put_records E (calls w) (record_buf p) (stream_name p)")
    case (Inl e)
    with False assms show ?thesis by (auto simp: flush_raises)
  next
    case (Inr resp)
    with False assms show ?thesis by (auto simp: flush_returns)
  qed
qed

lemma flush_append_outcome:
  assumes "flush_append E resp (p, w) = (res, p', w')"
  shows "(record_buf p = [] \<and> res = Inr (resp @ [None]) \<and> p' = p \<and> w' = w) \<or>
         (record_buf p \<noteq> [] \<and>
          w' = w\<lparr>calls := calls w @ [PutRecordsCall (record_buf p) (stream_name p)]\<rparr> \<and>
          ((\<exists>e. res = Inl (ClientError e) \<and> p' = p) \<or>
           (\<exists>r. res = Inr (resp @ [Some r]) \<and> p' = p\<lparr>record_buf := [], buf_size := 0\<rparr>)))"
proof -
  obtain fres fp fw where f: "flush E (p, w) = (fres, fp, fw)"
    by (cases "flush E (p, w)")
  from assms f have eq: "p' = fp" "w' = fw"
    "res = (case fres of Inl e \<Rightarrow> Inl e | Inr fr \<Rightarrow> Inr (resp @ [fr]))"
    by (auto simp: flush_append_def split: sum.splits)
  from flush_outcome [OF f] show ?thesis
    unfolding eq by auto
qed

subsection \<open>Facts about the datum\<close>

lemma make_datum_Data: "d_Data (fst (make_datum E pk ehk r w)) = r"
  by (simp add: make_datum_def get_default_partition_key_def)

lemma make_datum_keeps_calls: "calls (snd (make_datum E pk ehk r w)) = calls w"
  by (simp add: make_datum_def get_default_partition_key_def)

lemma make_datum_calls:
  "make_datum E pk ehk r (w\<lparr>calls := c\<rparr>) =
     (fst (make_datum E pk ehk r w), (snd (make_datum E pk ehk r w))\<lparr>calls := c\<rparr>)"
  by (simp add: make_datum_def get_default_partition_key_def)


subsection \<open>A client that accepts every batch\<close>

lemma batched_append_call:
  "batched (w\<lparr>calls := calls w @ [PutRecordsCall ds sn]\<rparr>) = batched w @ ds"
  by (simp add: batched_def)

lemma flush_succeeds:
  assumes "put_records_succeeds E"
  shows "\<exists>fr p' w'. flush E (p, w) = (Inr fr, p', w') \<and> record_buf p' = [] \<and>
           batched w' = batched w @ record_buf p"
proof (cases "record_buf p = []")
  case True
  then show ?thesis by (simp add: flush_empty)
next
  case False
  from assms obtain resp where
    "client_put_records E (calls w) (record_buf p) (stream_name p) = Inr resp"
    unfolding put_records_succeeds_def by blast
  with False show ?thesis
    by (simp add: flush_returns batched_append_call)
qed

lemma flush_append_succeeds:
  assumes "put_records_succeeds E"
  shows "\<exists>fr p' w'. flush_append E resp (p, w) = (Inr (resp @ [fr]), p', w') \<and>
           record_buf p' = [] \<and> batched w' = batched w @ record_buf p"
proof -
  from flush_succeeds [OF assms, of p w] obtain fr p' w' where
    "flush E (p, w) = (Inr fr, p', w')" "record_buf p' = []"
    "batched w' = batched w @ record_buf p"
    by blast
  then show ?thesis
    by (simp add: flush_append_def)
qed

lemma flush_if_full_succeeds:
  assumes "put_records_succeeds E"
  shows "\<exists>resp' p' w'. flush_if_full E resp (p, w) = (Inr resp', p', w') \<and>
           batched w' @ record_buf p' = batched w @ record_buf p"
proof (cases "length (record_buf p) = MAX_RECORDS_IN_BATCH")
  case True
  from flush_append_succeeds [OF assms, of resp p w] obtain fr p' w' where
    "flush_append E resp (p, w) = (Inr (resp @ [fr]), p', w')" "record_buf p' = []"
    "batched w' = batched w @ record_buf p"
    by blast
  with True show ?thesis
    by (simp add: flush_if_full_def)
next
  case False
  then show ?thesis
    by (simp add: flush_if_full_def)
qed

lemma batched_make_datum: "batched (snd (make_datum E pk ehk r w)) = batched w"
  by (simp add: batched_def make_datum_keeps_calls)

lemma add_datum_succeeds:
  assumes "put_records_succeeds E"
  shows "\<exists>resp' p' w'. add_datum E pk ehk r resp (p, w) = (Inr resp', p', w') \<and>
           map d_Data (batched w' @ record_buf p') = map d_Data (batched w @ record_buf p) @ [r]"
proof -
  obtain d w2 where md: "make_datum E pk ehk r w = (d, w2)"
    by (cases "make_datum E pk ehk r w")
  have d: "d_Data d = r"
    using make_datum_Data [of E pk ehk r w] md by simp
  have b2: "batched w2 = batched w"
    using batched_make_datum [of E pk ehk r w] md by simp
  show ?thesis
  proof (cases "buf_size p + sizeof_datum E d > MAX_BATCH_SIZE")
    case True
    from flush_append_succeeds [OF assms, of resp p w2] obtain fr p3 w3 where
      "flush_append E resp (p, w2) = (Inr (resp @ [fr]), p3, w3)" "record_buf p3 = []"
      "batched w3 = batched w2 @ record_buf p"
      by blast
    with True md d b2 show ?thesis
      by (simp add: add_datum_def Let_def)
  next
    case False
    with md d b2 show ?thesis
      by (simp add: add_datum_def Let_def)
  qed
qed

lemma put_records_item_succeeds:
  assumes "put_records_succeeds E" and "sizeof_bytes E r \<le> MAX_RECORD_SIZE"
  shows "\<exists>resp' p' w'. put_records_item E pk ehk r resp n (p, w) = (Inr resp', p', w') \<and>
           map d_Data (batched w' @ record_buf p') = map d_Data (batched w @ record_buf p) @ [r]"
proof -
  from flush_if_full_succeeds [OF assms(1), of resp p w] obtain resp1 p1 w1 where
    f: "flush_if_full E resp (p, w) = (Inr resp1, p1, w1)" and
    b1: "batched w1 @ record_buf p1 = batched w @ record_buf p"
    by blast
  from add_datum_succeeds [OF assms(1), of pk ehk r resp1 p1 w1] obtain resp' p' w' where
    a: "add_datum E pk ehk r resp1 (p1, w1) = (Inr resp', p', w')" and
    b2: "map d_Data (batched w' @ record_buf p') = map d_Data (batched w1 @ record_buf p1) @ [r]"
    by blast
  have "put_records_item E pk ehk r resp n (p, w) = (Inr resp', p', w')"
    using f a assms(2) by (simp add: put_records_item_def Let_def)
  moreover have
    "map d_Data (batched w' @ record_buf p') = map d_Data (batched w @ record_buf p) @ [r]"
    using b1 b2 by simp
  ultimately show ?thesis by blast
qed

lemma put_records_loop_succeeds:
  assumes "put_records_succeeds E" and "\<forall>r \<in> set rs. sizeof_bytes E r \<le> MAX_RECORD_SIZE"
  shows "\<exists>resp' p' w'. put_records_loop E pk ehk rs resp n (p, w) = (Inr resp', p', w') \<and>
           map d_Data (batched w' @ record_buf p') = map d_Data (batched w @ record_buf p) @ rs"
  using assms(2)
proof (induction rs arbitrary: resp n p w)
  case Nil
  then show ?case by simp
next
  case (Cons r rs)
  from Cons.prems have r: "sizeof_bytes E r \<le> MAX_RECORD_SIZE"
    and rs: "\<forall>r \<in> set rs. sizeof_bytes E r \<le> MAX_RECORD_SIZE"
    by simp_all
  from put_records_item_succeeds [OF assms(1) r, of pk ehk resp n p w] obtain resp1 p1 w1 where
    one: "put_records_item E pk ehk r resp n (p, w) = (Inr resp1, p1, w1)" and
    b1: "map d_Data (batched w1 @ record_buf p1) = map d_Data (batched w @ record_buf p) @ [r]"
    by blast
  from Cons.IH [OF rs, of resp1 "n + 1" p1 w1] obtain resp' p' w' where
    more: "put_records_loop E pk ehk rs resp1 (n + 1) (p1, w1) = (Inr resp', p', w')" and
    b2: "map d_Data (batched w' @ record_buf p') = map d_Data (batched w1 @ record_buf p1) @ rs"
    by blast
  have "put_records_loop E pk ehk (r # rs) resp n (p, w) = (Inr resp', p', w')"
    using one more by simp
  moreover have
    "map d_Data (batched w' @ record_buf p') = map d_Data (batched w @ record_buf p) @ r # rs"
    using b1 b2 by simp
  ultimately show ?case by blast
qed

lemma put_records_series_succeeds:
  assumes "put_records_succeeds E"
    and "\<forall>b \<in> set batches. \<forall>r \<in> set (fst b). sizeof_bytes E r \<le> MAX_RECORD_SIZE"
  shows "\<exists>resps p' w'. put_records_series E batches (p, w) = (Inr resps, p', w') \<and>
           map d_Data (batched w' @ record_buf p') =
             map d_Data (batched w @ record_buf p) @ concat (map fst batches)"
  using assms(2)
proof (induction batches arbitrary: p w)
  case Nil
  then show ?case by simp
next
  case (Cons b batches)
  obtain rs pk ehk where b: "b = (rs, pk, ehk)"
    by (cases b)
  from Cons.prems b have rs: "\<forall>r \<in> set rs. sizeof_bytes E r \<le> MAX_RECORD_SIZE"
    and rest: "\<forall>b \<in> set batches. \<forall>r \<in> set (fst b). sizeof_bytes E r \<le> MAX_RECORD_SIZE"
    by simp_all
  from put_records_loop_succeeds [OF assms(1) rs, of pk ehk "[]" 1 p w] obtain resp1 p1 w1 where
    one: "put_records E rs pk ehk (p, w) = (Inr resp1, p1, w1)" and
    b1: "map d_Data (batched w1 @ record_buf p1) = map d_Data (batched w @ record_buf p) @ rs"
    unfolding put_records_def by blast
  from Cons.IH [OF rest, of p1 w1] obtain resps p' w' where
    more: "put_records_series E batches (p1, w1) = (Inr resps, p', w')" and
    b2: "map d_Data (batched w' @ record_buf p') =
           map d_Data (batched w1 @ record_buf p1) @ concat (map fst batches)"
    by blast
  have "put_records_series E (b # batches) (p, w) = (Inr (resp1 # resps), p', w')"
    using one more b by simp
  moreover have "map d_Data (batched w' @ record_buf p') =
      map d_Data (batched w @ record_buf p) @ concat (map fst (b # batches))"
    using b1 b2 b by simp
  ultimately show ?case by blast
qed

text \<open>
  C1. Records of at most 1 MiB each and a client that accepts every batch: any series
  of \<^verbatim>\<open>put_records\<close> calls returns, the \<^verbatim>\<open>flush\<close> after it returns and leaves the buffer
  empty, and the payloads of all batches the client has then been sent, in the order it
  was sent them, are those it had been sent before, those that were in the buffer, and
  the records of the calls in their order, each once.
\<close>

theorem every_record_submitted_once_in_order:
  assumes "put_records_succeeds E"
    and "\<forall>b \<in> set batches. \<forall>r \<in> set (fst b). sizeof_bytes E r \<le> MAX_RECORD_SIZE"
  shows "\<exists>resps p1 w1 fr p2 w2.
           put_records_series E batches (p, w) = (Inr resps, p1, w1) \<and>
           flush E (p1, w1) = (Inr fr, p2, w2) \<and>
           record_buf p2 = [] \<and>
           map d_Data (batched w2) =
             map d_Data (batched w) @ map d_Data (record_buf p) @ concat (map fst batches)"
proof -
  from put_records_series_succeeds [OF assms, of p w] obtain resps p1 w1 where
    run: "put_records_series E batches (p, w) = (Inr resps, p1, w1)" and
    b1: "map d_Data (batched w1 @ record_buf p1) =
           map d_Data (batched w @ record_buf p) @ concat (map fst batches)"
    by blast
  from flush_succeeds [OF assms(1), of p1 w1] obtain fr p2 w2 where
    fl: "flush E (p1, w1) = (Inr fr, p2, w2)" and e: "record_buf p2 = []" and
    b2: "batched w2 = batched w1 @ record_buf p1"
    by blast
  have "map d_Data (batched w2) =
      map d_Data (batched w) @ map d_Data (record_buf p) @ concat (map fst batches)"
    using b1 b2 by simp
  with run fl e show ?thesis by blast
qed

theorem every_record_submitted_once_in_order_witness:
  "put_records_succeeds test_env \<and>
   sizeof_bytes test_env [1, 2] \<le> MAX_RECORD_SIZE \<and>
   sizeof_bytes test_env [3] \<le> MAX_RECORD_SIZE \<and>
   sizeof_bytes test_env [4] \<le> MAX_RECORD_SIZE \<and>
   map d_Data (batched (snd (snd (flush test_env (snd (put_records_series test_env
     [([[1, 2], [3]], None, None), ([[4]], Some ''k'', None)]
     (init ''orders'' True, new_world))))))) = [[1, 2], [3], [4]]"
proof -
  have ok: "put_records_succeeds test_env"
    by (simp add: put_records_succeeds_def test_env_def)
  have sz: "sizeof_bytes test_env [1, 2] \<le> MAX_RECORD_SIZE"
    "sizeof_bytes test_env [3] \<le> MAX_RECORD_SIZE"
    "sizeof_bytes test_env [4] \<le> MAX_RECORD_SIZE"
    by (simp_all add: test_env_def spec_sizeof_bytes_def MAX_RECORD_SIZE_def)
  have all: "\<forall>b \<in> set [([[1, 2], [3]], None, None), ([[4]], Some ''k'', None)].
      \<forall>r \<in> set (fst b). sizeof_bytes test_env r \<le> MAX_RECORD_SIZE"
    using sz by simp
  from every_record_submitted_once_in_order [OF ok all, of "init ''orders'' True" new_world]
  obtain resps p1 w1 fr p2 w2 where
    run: "put_records_series test_env [([[1, 2], [3]], None, None), ([[4]], Some ''k'', None)]
            (init ''orders'' True, new_world) = (Inr resps, p1, w1)" and
    fl: "flush test_env (p1, w1) = (Inr fr, p2, w2)" and
    sent: "map d_Data (batched w2) =
             map d_Data (batched new_world) @ map d_Data (record_buf (init ''orders'' True)) @
             concat (map fst [([[1, 2], [3]], None, None), ([[4 :: 8 word]], Some ''k'', None)])"
    by auto
  have "map d_Data (batched w2) = [[1, 2], [3], [4]]"
    using sent by (simp add: batched_def new_world_def init_def)
  with run fl ok sz show ?thesis by simp
qed

subsection \<open>The buffer between calls\<close>

lemma buffer_inv_init: "buffer_inv E (init sn ord)"
  by (simp add: buffer_inv_def init_def)

lemma buffer_inv_reset: "buffer_inv E (p\<lparr>record_buf := [], buf_size := 0\<rparr>)"
  by (simp add: buffer_inv_def)

lemma buffer_inv_empty: "buffer_inv E p \<Longrightarrow> record_buf p = [] \<Longrightarrow> buf_size p = 0"
  by (simp add: buffer_inv_def)

lemma flush_buffer_inv:
  assumes "buffer_inv E p" and "flush E (p, w) = (res, p', w')"
  shows "buffer_inv E p'"
  using flush_outcome [OF assms(2)] assms(1) by (auto simp: buffer_inv_reset)

lemma flush_append_buffer_inv:
  assumes "buffer_inv E p" and "flush_append E resp (p, w) = (res, p', w')"
  shows "buffer_inv E p'"
    and "res = Inr resp' \<Longrightarrow> record_buf p' = [] \<and> buf_size p' = 0"
  using flush_append_outcome [OF assms(2)] assms(1)
  by (auto simp: buffer_inv_reset buffer_inv_empty)

lemma flush_if_full_buffer_inv:
  assumes "buffer_inv E p" and "flush_if_full E resp (p, w) = (res, p', w')"
  shows "buffer_inv E p'"
    and "res = Inr resp' \<Longrightarrow> length (record_buf p') < MAX_RECORDS_IN_BATCH"
proof -
  show "buffer_inv E p'"
  proof (cases "length (record_buf p) = MAX_RECORDS_IN_BATCH")
    case True
    with assms(2) have "flush_append E resp (p, w) = (res, p', w')"
      by (simp add: flush_if_full_def)
    from flush_append_buffer_inv(1) [OF assms(1) this] show ?thesis .
  next
    case False
    with assms show ?thesis by (simp add: flush_if_full_def)
  qed
  show "length (record_buf p') < MAX_RECORDS_IN_BATCH" if r: "res = Inr resp'"
  proof (cases "length (record_buf p) = MAX_RECORDS_IN_BATCH")
    case True
    with assms(2) have "flush_append E resp (p, w) = (res, p', w')"
      by (simp add: flush_if_full_def)
    from flush_append_buffer_inv(2) [OF assms(1) this r] show ?thesis
      by (simp add: MAX_RECORDS_IN_BATCH_def)
  next
    case False
    with assms have "p' = p" by (simp add: flush_if_full_def)
    with False assms(1) show ?thesis by (simp add: buffer_inv_def)
  qed
qed

lemma add_datum_buffer_inv:
  assumes "buffer_inv E p" and "length (record_buf p) < MAX_RECORDS_IN_BATCH"
    and "add_datum E pk ehk r resp (p, w) = (res, p', w')"
  shows "buffer_inv E p'"
proof -
  obtain d w2 where md: "make_datum E pk ehk r w = (d, w2)"
    by (cases "make_datum E pk ehk r w")
  show ?thesis
  proof (cases "buf_size p + sizeof_datum E d > MAX_BATCH_SIZE")
    case True
    obtain fres p3 w3 where fa: "flush_append E resp (p, w2) = (fres, p3, w3)"
      by (cases "flush_append E resp (p, w2)")
    show ?thesis
    proof (cases fres)
      case (Inl e)
      with assms(3) md True fa have "p' = p3"
        by (simp add: add_datum_def Let_def)
      with flush_append_buffer_inv(1) [OF assms(1) fa] show ?thesis by simp
    next
      case (Inr resp3)
      from flush_append_buffer_inv(2) [OF assms(1) fa Inr]
      have e: "record_buf p3 = []" "buf_size p3 = 0" by simp_all
      from assms(3) md True fa Inr
      have "p' = p3\<lparr>record_buf := record_buf p3 @ [d],
                     buf_size := buf_size p3 + sizeof_datum E d\<rparr>"
        by (simp add: add_datum_def Let_def)
      with e show ?thesis by (simp add: buffer_inv_def MAX_RECORDS_IN_BATCH_def)
    qed
  next
    case False
    with assms(3) md
    have "p' = p\<lparr>record_buf := record_buf p @ [d], buf_size := buf_size p + sizeof_datum E d\<rparr>"
      by (simp add: add_datum_def Let_def)
    with False assms(1,2) show ?thesis by (simp add: buffer_inv_def)
  qed
qed

lemma put_records_item_buffer_inv:
  assumes "buffer_inv E p" and "put_records_item E pk ehk r resp n (p, w) = (res, p', w')"
  shows "buffer_inv E p'"
proof -
  obtain fres p1 w1 where f: "flush_if_full E resp (p, w) = (fres, p1, w1)"
    by (cases "flush_if_full E resp (p, w)")
  note inv1 = flush_if_full_buffer_inv(1) [OF assms(1) f]
  show ?thesis
  proof (cases fres)
    case (Inl e)
    with assms(2) f have "p' = p1"
      by (simp add: put_records_item_def)
    with inv1 show ?thesis by simp
  next
    case (Inr resp1)
    note len1 = flush_if_full_buffer_inv(2) [OF assms(1) f Inr]
    show ?thesis
    proof (cases "sizeof_bytes E r > MAX_RECORD_SIZE")
      case True
      with assms(2) f Inr have "p' = p1"
        by (simp add: put_records_item_def Let_def)
      with inv1 show ?thesis by simp
    next
      case False
      with assms(2) f Inr have "add_datum E pk ehk r resp1 (p1, w1) = (res, p', w')"
        by (simp add: put_records_item_def Let_def)
      from add_datum_buffer_inv [OF inv1 len1 this] show ?thesis .
    qed
  qed
qed

lemma put_records_loop_buffer_inv:
  "buffer_inv E p \<Longrightarrow> put_records_loop E pk ehk rs resp n (p, w) = (res, p', w') \<Longrightarrow>
   buffer_inv E p'"
proof (induction rs arbitrary: resp n p w)
  case Nil
  then show ?case by simp
next
  case (Cons r rs)
  obtain ires p1 w1 where i: "put_records_item E pk ehk r resp n (p, w) = (ires, p1, w1)"
    by (cases "put_records_item E pk ehk r resp n (p, w)")
  note inv1 = put_records_item_buffer_inv [OF Cons.prems(1) i]
  show ?case
  proof (cases ires)
    case (Inl e)
    with Cons.prems(2) i have "p' = p1" by simp
    with inv1 show ?thesis by simp
  next
    case (Inr resp1)
    with Cons.prems(2) i
    have "put_records_loop E pk ehk rs resp1 (n + 1) (p1, w1) = (res, p', w')"
      by simp
    from Cons.IH [OF inv1 this] show ?thesis .
  qed
qed

lemma put_record_buffer:
  "record_buf (fst (snd (put_record E r pk ehk (p, w)))) = record_buf p \<and>
   buf_size (fst (snd (put_record E r pk ehk (p, w)))) = buf_size p"
  by (simp add: put_record_def Let_def split: prod.split sum.split)

lemma put_record_buffer_inv:
  assumes "buffer_inv E p"
  shows "buffer_inv E (fst (snd (put_record E r pk ehk (p, w))))"
  using assms put_record_buffer [of E r pk ehk p w] by (auto simp: buffer_inv_def)

text \<open>
  The claim C2 as stated fails: \<^verbatim>\<open>put_records\<close> checks the record against 1 MiB and not
  the datum, so a record of three bytes with a partition key of 5 MiB is buffered, the
  call returns, and \<^verbatim>\<open>buf_size\<close> is over 5 MiB.
\<close>

theorem buf_size_over_max_batch_size:
  "fst (put_records test_env [[1, 2, 3]] (Some (replicate 5242880 CHR ''k'')) None
          (init ''orders'' True, new_world)) = Inr [None] \<and>
   \<not> buf_size (fst (snd (put_records test_env [[1, 2, 3]] (Some (replicate 5242880 CHR ''k''))
          None (init ''orders'' True, new_world)))) \<le> 5 * (1024 * 1024)"
  by (simp add: put_records_def put_records_item_def flush_if_full_def add_datum_def
      make_datum_def flush_append_def flush_def test_env_def spec_sizeof_bytes_def
      spec_sizeof_datum_def init_def MAX_RECORDS_IN_BATCH_def MAX_RECORD_SIZE_def
      MAX_BATCH_SIZE_def)

text \<open>
  C2, as amended. In every state that a producer can be in between two calls (a new producer,
  or what \<^verbatim>\<open>put_record\<close>, \<^verbatim>\<open>put_records\<close> or \<^verbatim>\<open>flush\<close> leaves behind, returning or
  raising), \<^verbatim>\<open>buf_size\<close> is the sum of the sizes of the datums in \<^verbatim>\<open>record_buf\<close>,
  \<^verbatim>\<open>record_buf\<close> holds at most 500 datums, and \<^verbatim>\<open>buf_size\<close> is at most 5 MiB unless
  \<^verbatim>\<open>record_buf\<close> holds exactly one datum (whose own size is then more than 5 MiB).
\<close>

theorem buffer_bounds_between_calls:
  assumes "reachable E (p, w)"
  shows "buf_size p = sum_list (map (sizeof_datum E) (record_buf p)) \<and>
         length (record_buf p) \<le> 500 \<and>
         (buf_size p \<le> 5 * (1024 * 1024) \<or>
          (\<exists>d. record_buf p = [d] \<and> 5 * (1024 * 1024) < sizeof_datum E d))"
proof -
  have "buffer_inv E (fst pw)" if "reachable E pw" for pw
    using that
  proof (induction rule: reachable.induct)
    case (reach_init sn ord w)
    show ?case by (simp add: buffer_inv_init)
  next
    case (reach_put_record pw r pk ehk)
    then show ?case
      using put_record_buffer_inv [of E "fst pw" r pk ehk "snd pw"] by simp
  next
    case (reach_put_records pw rs pk ehk)
    obtain res p' w' where run: "put_records E rs pk ehk pw = (res, p', w')"
      by (cases "put_records E rs pk ehk pw")
    then have "put_records_loop E pk ehk rs [] 1 (fst pw, snd pw) = (res, p', w')"
      by (simp add: put_records_def)
    from put_records_loop_buffer_inv [OF reach_put_records.IH this] run
    show ?case by simp
  next
    case (reach_flush pw)
    obtain res p' w' where run: "flush E pw = (res, p', w')"
      by (cases "flush E pw")
    then have "flush E (fst pw, snd pw) = (res, p', w')"
      by simp
    from flush_buffer_inv [OF reach_flush.IH this] run
    show ?case by simp
  qed
  from this [OF assms] have inv: "buffer_inv E p"
    by simp
  then have sum: "buf_size p = sum_list (map (sizeof_datum E) (record_buf p))"
    and len: "length (record_buf p) \<le> 500"
    and sz: "buf_size p \<le> 5 * (1024 * 1024) \<or> length (record_buf p) = 1"
    by (auto simp: buffer_inv_def MAX_RECORDS_IN_BATCH_def MAX_BATCH_SIZE_def MAX_RECORD_SIZE_def)
  have "buf_size p \<le> 5 * (1024 * 1024) \<or>
        (\<exists>d. record_buf p = [d] \<and> 5 * (1024 * 1024) < sizeof_datum E d)"
  proof (cases "buf_size p \<le> 5 * (1024 * 1024)")
    case True
    then show ?thesis by simp
  next
    case False
    with sz have "length (record_buf p) = 1" by simp
    then obtain d where d: "record_buf p = [d]"
      by (cases "record_buf p") auto
    with sum False show ?thesis by simp
  qed
  with sum len show ?thesis by simp
qed

theorem buffer_bounds_between_calls_witness:
  "reachable test_env
     ((init ''orders'' True)
        \<lparr>record_buf :=
           [\<lparr>d_ExplicitHashKey = None, d_PartitionKey = Some (replicate 5242880 CHR ''k''),
              d_Data = [1, 2, 3]\<rparr>],
         buf_size := 5242883\<rparr>,
      new_world) \<and>
   buf_size ((init ''orders'' True)
        \<lparr>record_buf :=
           [\<lparr>d_ExplicitHashKey = None, d_PartitionKey = Some (replicate 5242880 CHR ''k''),
              d_Data = [1, 2, 3]\<rparr>],
         buf_size := 5242883\<rparr>) =
     sizeof_datum test_env
       \<lparr>d_ExplicitHashKey = None, d_PartitionKey = Some (replicate 5242880 CHR ''k''),
          d_Data = [1, 2, 3]\<rparr> \<and>
   5 * (1024 * 1024) <
     sizeof_datum test_env
       \<lparr>d_ExplicitHashKey = None, d_PartitionKey = Some (replicate 5242880 CHR ''k''),
          d_Data = [1, 2, 3]\<rparr>"
proof -
  let ?d = "\<lparr>d_ExplicitHashKey = None, d_PartitionKey = Some (replicate 5242880 CHR ''k''),
              d_Data = [1, 2, 3]\<rparr>"
  let ?p = "(init ''orders'' True)\<lparr>record_buf := [?d], buf_size := 5242883\<rparr>"
  have run: "snd (put_records test_env [[1, 2, 3]] (Some (replicate 5242880 CHR ''k'')) None
          (init ''orders'' True, new_world)) = (?p, new_world)"
    by (simp add: put_records_def put_records_item_def flush_if_full_def add_datum_def
      make_datum_def flush_append_def flush_def test_env_def spec_sizeof_bytes_def
      spec_sizeof_datum_def init_def MAX_RECORDS_IN_BATCH_def MAX_RECORD_SIZE_def
      MAX_BATCH_SIZE_def)
  have r: "reachable test_env (?p, new_world)"
    using reach_put_records [OF reach_init, of test_env "[[1, 2, 3]]"
        "Some (replicate 5242880 CHR ''k'')" None "''orders''" True new_world]
    unfolding run .
  from buffer_bounds_between_calls [OF r]
  have "buf_size ?p = sum_list (map (sizeof_datum test_env) (record_buf ?p)) \<and>
        (buf_size ?p \<le> 5 * (1024 * 1024) \<or>
          (\<exists>d. record_buf ?p = [d] \<and> 5 * (1024 * 1024) < sizeof_datum test_env d))"
    by blast
  then have "buf_size ?p = sizeof_datum test_env ?d \<and>
      5 * (1024 * 1024) < sizeof_datum test_env ?d"
    by simp
  with r show ?thesis by blast
qed

subsection \<open>Single steps of the loop\<close>

lemma put_records_item_plain:
  assumes "length (record_buf p) \<noteq> MAX_RECORDS_IN_BATCH"
    and "sizeof_bytes E r \<le> MAX_RECORD_SIZE"
    and "make_datum E pk ehk r w = (d, w2)"
    and "buf_size p + sizeof_datum E d \<le> MAX_BATCH_SIZE"
  shows "put_records_item E pk ehk r resp n (p, w) =
           (Inr resp,
            p\<lparr>record_buf := record_buf p @ [d], buf_size := buf_size p + sizeof_datum E d\<rparr>,
            w2)"
  using assms by (simp add: put_records_item_def flush_if_full_def add_datum_def Let_def)

lemma put_records_item_full:
  assumes "length (record_buf p) = MAX_RECORDS_IN_BATCH"
    and "client_put_records E (calls w) (record_buf p) (stream_name p) = Inr fr"
    and "sizeof_bytes E r \<le> MAX_RECORD_SIZE"
    and "make_datum E pk ehk r w = (d, w2)"
    and "sizeof_datum E d \<le> MAX_BATCH_SIZE"
  shows "put_records_item E pk ehk r resp n (p, w) =
           (Inr (resp @ [Some fr]),
            p\<lparr>record_buf := [d], buf_size := sizeof_datum E d\<rparr>,
            w2\<lparr>calls := calls w @ [PutRecordsCall (record_buf p) (stream_name p)]\<rparr>)"
proof -
  from assms(1) have ne: "record_buf p \<noteq> []"
    by (auto simp: MAX_RECORDS_IN_BATCH_def)
  have f: "flush_if_full E resp (p, w) =
      (Inr (resp @ [Some fr]), p\<lparr>record_buf := [], buf_size := 0\<rparr>,
       w\<lparr>calls := calls w @ [PutRecordsCall (record_buf p) (stream_name p)]\<rparr>)"
    using assms(1) by (simp add: flush_if_full_def flush_append_def flush_returns [OF ne assms(2)])
  have m: "make_datum E pk ehk r
      (w\<lparr>calls := calls w @ [PutRecordsCall (record_buf p) (stream_name p)]\<rparr>) =
      (d, w2\<lparr>calls := calls w @ [PutRecordsCall (record_buf p) (stream_name p)]\<rparr>)"
    using assms(4) by (simp add: make_datum_calls)
  show ?thesis
    using assms(3,5) by (simp add: put_records_item_def f add_datum_def m Let_def)
qed

lemma put_records_item_full_oversized:
  assumes "length (record_buf p) = MAX_RECORDS_IN_BATCH"
    and "client_put_records E (calls w) (record_buf p) (stream_name p) = Inr fr"
    and "MAX_RECORD_SIZE < sizeof_bytes E r"
  shows "put_records_item E pk ehk r resp n (p, w) =
           (Inl (ValueError n MAX_RECORD_SIZE (sizeof_bytes E r) r),
            p\<lparr>record_buf := [], buf_size := 0\<rparr>,
            w\<lparr>calls := calls w @ [PutRecordsCall (record_buf p) (stream_name p)]\<rparr>)"
proof -
  from assms(1) have ne: "record_buf p \<noteq> []"
    by (auto simp: MAX_RECORDS_IN_BATCH_def)
  have f: "flush_if_full E resp (p, w) =
      (Inr (resp @ [Some fr]), p\<lparr>record_buf := [], buf_size := 0\<rparr>,
       w\<lparr>calls := calls w @ [PutRecordsCall (record_buf p) (stream_name p)]\<rparr>)"
    using assms(1) by (simp add: flush_if_full_def flush_append_def flush_returns [OF ne assms(2)])
  show ?thesis
    using assms(3) by (simp add: put_records_item_def f Let_def)
qed

lemma put_records_item_full_raises:
  assumes "length (record_buf p) = MAX_RECORDS_IN_BATCH"
    and "client_put_records E (calls w) (record_buf p) (stream_name p) = Inl e"
  shows "put_records_item E pk ehk r resp n (p, w) =
           (Inl (ClientError e), p,
            w\<lparr>calls := calls w @ [PutRecordsCall (record_buf p) (stream_name p)]\<rparr>)"
proof -
  from assms(1) have ne: "record_buf p \<noteq> []"
    by (auto simp: MAX_RECORDS_IN_BATCH_def)
  show ?thesis
    using assms(1)
    by (simp add: put_records_item_def flush_if_full_def flush_append_def
        flush_raises [OF ne assms(2)])
qed

lemma put_records_item_oversized:
  assumes "length (record_buf p) \<noteq> MAX_RECORDS_IN_BATCH"
    and "MAX_RECORD_SIZE < sizeof_bytes E r"
  shows "put_records_item E pk ehk r resp n (p, w) =
           (Inl (ValueError n MAX_RECORD_SIZE (sizeof_bytes E r) r), p, w)"
  using assms by (simp add: put_records_item_def flush_if_full_def Let_def)

subsection \<open>The loop on a list of records\<close>

lemma put_records_loop_append:
  "put_records_loop E pk ehk (xs @ ys) resp n pw =
     (case put_records_loop E pk ehk xs resp n pw of
        (Inl e, pw') \<Rightarrow> (Inl e, pw')
      | (Inr resp', pw') \<Rightarrow> put_records_loop E pk ehk ys resp' (n + length xs) pw')"
proof (induction xs arbitrary: resp n pw)
  case Nil
  show ?case by simp
next
  case (Cons x xs)
  obtain res pw1 where i: "put_records_item E pk ehk x resp n pw = (res, pw1)"
    by (cases "put_records_item E pk ehk x resp n pw")
  show ?case
  proof (cases res)
    case (Inl e)
    with i show ?thesis by simp
  next
    case (Inr resp1)
    obtain res2 pw2 where l: "put_records_loop E pk ehk xs resp1 (n + 1) pw1 = (res2, pw2)"
      by (cases "put_records_loop E pk ehk xs resp1 (n + 1) pw1")
    show ?thesis
    proof (cases res2)
      case (Inl e)
      with i Inr l Cons.IH [of resp1 "n + 1" pw1] show ?thesis by simp
    next
      case res2: (Inr resp2)
      with i Inr l Cons.IH [of resp1 "n + 1" pw1] show ?thesis by (simp add: add.assoc)
    qed
  qed
qed

lemma make_datums_Cons:
  "make_datums E pk ehk (r # rs) w =
     (fst (make_datum E pk ehk r w) #
        fst (make_datums E pk ehk rs (snd (make_datum E pk ehk r w))),
      snd (make_datums E pk ehk rs (snd (make_datum E pk ehk r w))))"
  by (simp add: case_prod_unfold)

lemma make_datums_length: "length (fst (make_datums E pk ehk rs w)) = length rs"
  by (induction rs arbitrary: w) (simp_all add: make_datums_Cons del: make_datums.simps(2))

lemma make_datums_Data: "map d_Data (fst (make_datums E pk ehk rs w)) = rs"
  by (induction rs arbitrary: w)
    (simp_all add: make_datums_Cons make_datum_Data del: make_datums.simps(2))

lemma make_datums_keeps_calls: "calls (snd (make_datums E pk ehk rs w)) = calls w"
  by (induction rs arbitrary: w)
    (simp_all add: make_datums_Cons make_datum_keeps_calls del: make_datums.simps(2))

lemma make_datums_keyed:
  assumes "truthy pk" and "\<not> truthy ehk"
  shows "make_datums E pk ehk rs w =
           (map (\<lambda>r. \<lparr>d_ExplicitHashKey = None, d_PartitionKey = pk, d_Data = r\<rparr>) rs, w)"
  using assms by (induction rs) (simp_all add: make_datum_def)

lemma put_records_loop_fill:
  assumes "\<forall>r \<in> set rs. sizeof_bytes E r \<le> MAX_RECORD_SIZE"
    and "length (record_buf p) + length rs \<le> MAX_RECORDS_IN_BATCH"
    and "buf_size p + sum_list (map (sizeof_datum E) (fst (make_datums E pk ehk rs w)))
           \<le> MAX_BATCH_SIZE"
  shows "put_records_loop E pk ehk rs resp n (p, w) =
           (Inr resp,
            p\<lparr>record_buf := record_buf p @ fst (make_datums E pk ehk rs w),
              buf_size := buf_size p +
                sum_list (map (sizeof_datum E) (fst (make_datums E pk ehk rs w)))\<rparr>,
            snd (make_datums E pk ehk rs w))"
  using assms
proof (induction rs arbitrary: n p w)
  case Nil
  show ?case by simp
next
  case (Cons r rs)
  obtain d w1 where m: "make_datum E pk ehk r w = (d, w1)"
    by (cases "make_datum E pk ehk r w")
  obtain ds w2 where ms: "make_datums E pk ehk rs w1 = (ds, w2)"
    by (cases "make_datums E pk ehk rs w1")
  have all: "make_datums E pk ehk (r # rs) w = (d # ds, w2)"
    using m ms by simp
  let ?p1 = "p\<lparr>record_buf := record_buf p @ [d], buf_size := buf_size p + sizeof_datum E d\<rparr>"
  from Cons.prems(2) have len: "length (record_buf p) \<noteq> MAX_RECORDS_IN_BATCH"
    by simp
  from Cons.prems(1) have r: "sizeof_bytes E r \<le> MAX_RECORD_SIZE"
    and rs: "\<forall>r \<in> set rs. sizeof_bytes E r \<le> MAX_RECORD_SIZE"
    by simp_all
  from Cons.prems(3) all
  have sz: "buf_size p + sizeof_datum E d \<le> MAX_BATCH_SIZE"
    and szs: "buf_size ?p1 + sum_list (map (sizeof_datum E) (fst (make_datums E pk ehk rs w1)))
           \<le> MAX_BATCH_SIZE"
    using ms by simp_all
  from Cons.prems(2) have lens: "length (record_buf ?p1) + length rs \<le> MAX_RECORDS_IN_BATCH"
    by simp
  have one: "put_records_item E pk ehk r resp n (p, w) = (Inr resp, ?p1, w1)"
    by (rule put_records_item_plain [OF len r m sz])
  have "put_records_loop E pk ehk (r # rs) resp n (p, w) =
      put_records_loop E pk ehk rs resp (n + 1) (?p1, w1)"
    using one by simp
  also have "\<dots> = (Inr resp,
            ?p1\<lparr>record_buf := record_buf ?p1 @ fst (make_datums E pk ehk rs w1),
              buf_size := buf_size ?p1 +
                sum_list (map (sizeof_datum E) (fst (make_datums E pk ehk rs w1)))\<rparr>,
            snd (make_datums E pk ehk rs w1))"
    by (rule Cons.IH [OF rs lens szs])
  finally show ?case
    using all ms by (simp add: add.assoc)
qed

lemma make_datums_append:
  "make_datums E pk ehk (xs @ ys) w =
     (fst (make_datums E pk ehk xs w) @
        fst (make_datums E pk ehk ys (snd (make_datums E pk ehk xs w))),
      snd (make_datums E pk ehk ys (snd (make_datums E pk ehk xs w))))"
  by (induction xs arbitrary: w) (simp_all add: make_datums_Cons del: make_datums.simps(2))

subsection \<open>Runs in the concrete environment\<close>

lemma test_env_succeeds: "put_records_succeeds test_env"
  by (simp add: put_records_succeeds_def test_env_def)

lemma test_env_fill:
  assumes "n \<le> 500" and "length r \<le> 1048576" and "n * (length r + length k) \<le> 5242880"
    and "k \<noteq> []"
  shows "put_records test_env (replicate n r) (Some k) None (init sn ord, new_world) =
           (Inr [],
            (init sn ord)
              \<lparr>record_buf :=
                 replicate n \<lparr>d_ExplicitHashKey = None, d_PartitionKey = Some k, d_Data = r\<rparr>,
               buf_size := n * (length r + length k)\<rparr>,
            new_world)"
proof -
  have md: "make_datums test_env (Some k) None (replicate n r) new_world =
      (replicate n \<lparr>d_ExplicitHashKey = None, d_PartitionKey = Some k, d_Data = r\<rparr>, new_world)"
    using assms(4) by (simp add: make_datums_keyed)
  have sz: "sizeof_datum test_env \<lparr>d_ExplicitHashKey = None, d_PartitionKey = Some k, d_Data = r\<rparr> =
      length r + length k"
    by (simp add: test_env_def spec_sizeof_datum_def)
  have a1: "\<forall>x \<in> set (replicate n r). sizeof_bytes test_env x \<le> MAX_RECORD_SIZE"
    using assms(2) by (simp add: test_env_def spec_sizeof_bytes_def MAX_RECORD_SIZE_def)
  have a2: "length (record_buf (init sn ord)) + length (replicate n r) \<le> MAX_RECORDS_IN_BATCH"
    using assms(1) by (simp add: init_def MAX_RECORDS_IN_BATCH_def)
  have a3: "buf_size (init sn ord) +
      sum_list (map (sizeof_datum test_env)
        (fst (make_datums test_env (Some k) None (replicate n r) new_world))) \<le> MAX_BATCH_SIZE"
    using assms(3)
    by (simp add: md sz sum_list_replicate init_def MAX_BATCH_SIZE_def MAX_RECORD_SIZE_def)
  note run = put_records_loop_fill [OF a1 a2 a3, of "[]" 1]
  show ?thesis
    unfolding put_records_def run
    by (simp add: md sz sum_list_replicate init_def)
qed

subsection \<open>The record count\<close>

text \<open>
  C5. The loop of \<^verbatim>\<open>put_records\<close> at item number \<open>n\<close>, with the buffer holding 500
  datums: the count is checked before the size of the item. If the client accepts the
  batch and the item is over 1 MiB, the call raises the \<^verbatim>\<open>ValueError\<close> of that item and
  the flush stays done: the client has the batch, the buffer is empty, the size is zero.
  If the client raises, its exception reaches the caller and the size of the item is
  never looked at.
\<close>

theorem count_check_before_size_check:
  assumes "length (record_buf p) = 500"
  shows
    "(client_put_records E (calls w) (record_buf p) (stream_name p) = Inr fr \<and>
      MAX_RECORD_SIZE < sizeof_bytes E r \<longrightarrow>
        put_records_loop E pk ehk (r # rs) resp n (p, w) =
          (Inl (ValueError n MAX_RECORD_SIZE (sizeof_bytes E r) r),
           p\<lparr>record_buf := [], buf_size := 0\<rparr>,
           w\<lparr>calls := calls w @ [PutRecordsCall (record_buf p) (stream_name p)]\<rparr>)) \<and>
     (client_put_records E (calls w) (record_buf p) (stream_name p) = Inl e \<longrightarrow>
        put_records_loop E pk ehk (r # rs) resp n (p, w) =
          (Inl (ClientError e), p,
           w\<lparr>calls := calls w @ [PutRecordsCall (record_buf p) (stream_name p)]\<rparr>))"
proof -
  from assms have full: "length (record_buf p) = MAX_RECORDS_IN_BATCH"
    by (simp add: MAX_RECORDS_IN_BATCH_def)
  show ?thesis
    by (simp add: put_records_item_full_oversized [OF full]
        put_records_item_full_raises [OF full])
qed

theorem count_check_before_size_check_witness:
  "length (record_buf ((init ''orders'' True)
      \<lparr>record_buf :=
         replicate 500 \<lparr>d_ExplicitHashKey = None, d_PartitionKey = Some ''k'', d_Data = [1]\<rparr>,
       buf_size := 1000\<rparr>)) = 500 \<and>
   put_records test_env [replicate 1048577 0] (Some ''k'') None
     ((init ''orders'' True)
        \<lparr>record_buf :=
           replicate 500 \<lparr>d_ExplicitHashKey = None, d_PartitionKey = Some ''k'', d_Data = [1]\<rparr>,
         buf_size := 1000\<rparr>, new_world) =
     (Inl (ValueError 1 MAX_RECORD_SIZE 1048577 (replicate 1048577 0)),
      (init ''orders'' True)\<lparr>record_buf := [], buf_size := 0\<rparr>,
      \<lparr>calls =
         [PutRecordsCall
            (replicate 500 \<lparr>d_ExplicitHashKey = None, d_PartitionKey = Some ''k'', d_Data = [1]\<rparr>)
            ''orders''],
       ticks = 0\<rparr>)"
proof -
  let ?p = "(init ''orders'' True)
      \<lparr>record_buf :=
         replicate 500 \<lparr>d_ExplicitHashKey = None, d_PartitionKey = Some ''k'', d_Data = [1]\<rparr>,
       buf_size := 1000\<rparr>"
  have len: "length (record_buf ?p) = 500"
    by simp
  have c: "client_put_records test_env (calls new_world) (record_buf ?p) (stream_name ?p) =
      Inr [''FailedRecordCount'' \<mapsto> ''0'']"
    by (simp add: test_env_def)
  have big: "MAX_RECORD_SIZE < sizeof_bytes test_env (replicate 1048577 0)"
    by (simp add: test_env_def spec_sizeof_bytes_def MAX_RECORD_SIZE_def)
  from count_check_before_size_check [OF len, where E = test_env and w = new_world
      and fr = "[''FailedRecordCount'' \<mapsto> ''0'']" and r = "replicate 1048577 0"
      and pk = "Some ''k''" and ehk = None and rs = "[]" and resp = "[]" and n = 1]
    c big
  have "put_records_loop test_env (Some ''k'') None [replicate 1048577 0] [] 1 (?p, new_world) =
          (Inl (ValueError 1 MAX_RECORD_SIZE (sizeof_bytes test_env (replicate 1048577 0))
             (replicate 1048577 0)),
           ?p\<lparr>record_buf := [], buf_size := 0\<rparr>,
           new_world\<lparr>calls := calls new_world @
             [PutRecordsCall (record_buf ?p) (stream_name ?p)]\<rparr>)"
    by blast
  then show ?thesis
    using len
    by (simp add: put_records_def test_env_def spec_sizeof_bytes_def new_world_def init_def)
qed

text \<open>
  The claim C6 as stated fails: the record count is not the only reason for a flush. Four
  records of 1 MiB with a one-byte key are buffered without a flush; the fifth would take
  the running size over 5 MiB, so line 110 sends the client the batch of four with four
  datums in the buffer, not 500.
\<close>

theorem batch_sent_with_four_buffered:
  "put_records test_env (replicate 4 (replicate 1048576 0)) (Some ''k'') None
     (init ''orders'' False, new_world) =
     (Inr [],
      (init ''orders'' False)
        \<lparr>record_buf :=
           replicate 4
             \<lparr>d_ExplicitHashKey = None, d_PartitionKey = Some ''k'',
                d_Data = replicate 1048576 0\<rparr>,
         buf_size := 4194308\<rparr>,
      new_world) \<and>
   length (record_buf ((init ''orders'' False)
        \<lparr>record_buf :=
           replicate 4
             \<lparr>d_ExplicitHashKey = None, d_PartitionKey = Some ''k'',
                d_Data = replicate 1048576 0\<rparr>,
         buf_size := 4194308\<rparr>)) = 4 \<and>
   put_records test_env [replicate 1048576 0] (Some ''k'') None
     ((init ''orders'' False)
        \<lparr>record_buf :=
           replicate 4
             \<lparr>d_ExplicitHashKey = None, d_PartitionKey = Some ''k'',
                d_Data = replicate 1048576 0\<rparr>,
         buf_size := 4194308\<rparr>,
      new_world) =
     (Inr [Some [''FailedRecordCount'' \<mapsto> ''0'']],
      (init ''orders'' False)
        \<lparr>record_buf :=
           [\<lparr>d_ExplicitHashKey = None, d_PartitionKey = Some ''k'',
              d_Data = replicate 1048576 0\<rparr>],
         buf_size := 1048577\<rparr>,
      \<lparr>calls =
         [PutRecordsCall
            (replicate 4
               \<lparr>d_ExplicitHashKey = None, d_PartitionKey = Some ''k'',
                  d_Data = replicate 1048576 0\<rparr>)
            ''orders''],
       ticks = 0\<rparr>)"
proof -
  let ?d = "\<lparr>d_ExplicitHashKey = None, d_PartitionKey = Some ''k'',
              d_Data = replicate 1048576 0\<rparr>"
  let ?p = "(init ''orders'' False)\<lparr>record_buf := replicate 4 ?d, buf_size := 4194308\<rparr>"
  have before: "put_records test_env (replicate 4 (replicate 1048576 0)) (Some ''k'') None
      (init ''orders'' False, new_world) = (Inr [], ?p, new_world)"
    using test_env_fill [of 4 "replicate 1048576 0" "''k''" "''orders''" False] by simp
  have len: "length (record_buf ?p) = 4"
    by simp
  have after: "put_records test_env [replicate 1048576 0] (Some ''k'') None (?p, new_world) =
     (Inr [Some [''FailedRecordCount'' \<mapsto> ''0'']],
      (init ''orders'' False)\<lparr>record_buf := [?d], buf_size := 1048577\<rparr>,
      \<lparr>calls = [PutRecordsCall (replicate 4 ?d) ''orders''], ticks = 0\<rparr>)"
    by (simp add: put_records_def put_records_item_def flush_if_full_def add_datum_def
        make_datum_def flush_append_def flush_def test_env_def spec_sizeof_bytes_def
        spec_sizeof_datum_def init_def new_world_def MAX_RECORDS_IN_BATCH_def
        MAX_RECORD_SIZE_def MAX_BATCH_SIZE_def)
  from before len after show ?thesis by blast
qed

text \<open>
  C6, as amended. With a client that accepts every batch and an item within 1 MiB, one
  turn of the loop sends the client a batch exactly when the buffer holds 500 datums as
  the turn begins, or the buffer is not empty and the datum of the item would take the
  running size over 5 MiB. In both cases it is one batch, the buffer as the turn found
  it, sent before the datum is added, and the buffer is left with the new datum alone.
  In every other case nothing is sent and the datum is appended, also when that makes
  500. So one \<^verbatim>\<open>put_records\<close> call with 501 records on an empty buffer, their datums
  within 5 MiB together, returns one response, that of the batch of the first 500, and
  leaves the datum of the last record in the buffer.
\<close>

theorem batch_sent_only_when_full_or_over_size:
  assumes "put_records_succeeds E"
  shows
    "(sizeof_bytes E r \<le> MAX_RECORD_SIZE \<and> make_datum E pk ehk r w = (d, w2) \<longrightarrow>
        (\<exists>resp' p' w'. put_records_item E pk ehk r resp n (p, w) = (Inr resp', p', w') \<and>
           (length (record_buf p) = 500 \<or>
            record_buf p \<noteq> [] \<and> MAX_BATCH_SIZE < buf_size p + sizeof_datum E d \<longrightarrow>
              calls w' = calls w @ [PutRecordsCall (record_buf p) (stream_name p)] \<and>
              record_buf p' = [d] \<and>
              (\<exists>fr. client_put_records E (calls w) (record_buf p) (stream_name p) = Inr fr \<and>
                 resp' =
                   resp @ Some fr #
                     (if length (record_buf p) = 500 \<and> MAX_BATCH_SIZE < sizeof_datum E d
                      then [None] else []))) \<and>
           (length (record_buf p) \<noteq> 500 \<and>
            (record_buf p = [] \<or> buf_size p + sizeof_datum E d \<le> MAX_BATCH_SIZE) \<longrightarrow>
              calls w' = calls w \<and>
              record_buf p' = record_buf p @ [d] \<and>
              resp' =
                resp @ (if MAX_BATCH_SIZE < buf_size p + sizeof_datum E d
                        then [None] else [])))) \<and>
     (length rs = 501 \<and> record_buf p = [] \<and> buf_size p = 0 \<and>
      (\<forall>r \<in> set rs. sizeof_bytes E r \<le> MAX_RECORD_SIZE) \<and>
      sum_list (map (sizeof_datum E) (fst (make_datums E pk ehk rs w))) \<le> MAX_BATCH_SIZE \<longrightarrow>
        (\<exists>fr p' w'.
           client_put_records E (calls w) (fst (make_datums E pk ehk (take 500 rs) w))
             (stream_name p) = Inr fr \<and>
           put_records E rs pk ehk (p, w) = (Inr [Some fr], p', w') \<and>
           calls w' =
             calls w @ [PutRecordsCall (fst (make_datums E pk ehk (take 500 rs) w)) (stream_name p)] \<and>
           map d_Data (fst (make_datums E pk ehk (take 500 rs) w)) = take 500 rs \<and>
           length (record_buf p') = 1 \<and>
           map d_Data (record_buf p') = drop 500 rs))"
proof (intro conjI impI)
  assume h: "sizeof_bytes E r \<le> MAX_RECORD_SIZE \<and> make_datum E pk ehk r w = (d, w2)"
  then have r: "sizeof_bytes E r \<le> MAX_RECORD_SIZE" and m: "make_datum E pk ehk r w = (d, w2)"
    by simp_all
  have c2: "calls w2 = calls w"
    using make_datum_keeps_calls [of E pk ehk r w] m by simp
  show "\<exists>resp' p' w'. put_records_item E pk ehk r resp n (p, w) = (Inr resp', p', w') \<and>
           (length (record_buf p) = 500 \<or>
            record_buf p \<noteq> [] \<and> MAX_BATCH_SIZE < buf_size p + sizeof_datum E d \<longrightarrow>
              calls w' = calls w @ [PutRecordsCall (record_buf p) (stream_name p)] \<and>
              record_buf p' = [d] \<and>
              (\<exists>fr. client_put_records E (calls w) (record_buf p) (stream_name p) = Inr fr \<and>
                 resp' =
                   resp @ Some fr #
                     (if length (record_buf p) = 500 \<and> MAX_BATCH_SIZE < sizeof_datum E d
                      then [None] else []))) \<and>
           (length (record_buf p) \<noteq> 500 \<and>
            (record_buf p = [] \<or> buf_size p + sizeof_datum E d \<le> MAX_BATCH_SIZE) \<longrightarrow>
              calls w' = calls w \<and>
              record_buf p' = record_buf p @ [d] \<and>
              resp' =
                resp @ (if MAX_BATCH_SIZE < buf_size p + sizeof_datum E d
                        then [None] else []))"
  proof (cases "length (record_buf p) = 500")
    case True
    then have full: "length (record_buf p) = MAX_RECORDS_IN_BATCH"
      by (simp add: MAX_RECORDS_IN_BATCH_def)
    from True have ne: "record_buf p \<noteq> []"
      by auto
    from assms obtain fr where
      c: "client_put_records E (calls w) (record_buf p) (stream_name p) = Inr fr"
      unfolding put_records_succeeds_def by blast
    have item: "put_records_item E pk ehk r resp n (p, w) =
        (Inr (resp @ Some fr # (if MAX_BATCH_SIZE < sizeof_datum E d then [None] else [])),
         p\<lparr>record_buf := [d], buf_size := sizeof_datum E d\<rparr>,
         w2\<lparr>calls := calls w @ [PutRecordsCall (record_buf p) (stream_name p)]\<rparr>)"
    proof (cases "MAX_BATCH_SIZE < sizeof_datum E d")
      case over: True
      have f: "flush_if_full E resp (p, w) =
          (Inr (resp @ [Some fr]), p\<lparr>record_buf := [], buf_size := 0\<rparr>,
           w\<lparr>calls := calls w @ [PutRecordsCall (record_buf p) (stream_name p)]\<rparr>)"
        using full by (simp add: flush_if_full_def flush_append_def flush_returns [OF ne c])
      have m': "make_datum E pk ehk r
          (w\<lparr>calls := calls w @ [PutRecordsCall (record_buf p) (stream_name p)]\<rparr>) =
          (d, w2\<lparr>calls := calls w @ [PutRecordsCall (record_buf p) (stream_name p)]\<rparr>)"
        using m by (simp add: make_datum_calls)
      show ?thesis
        using r over
        by (simp add: put_records_item_def f add_datum_def m' Let_def flush_append_def
            flush_def)
    next
      case under: False
      then have szd: "sizeof_datum E d \<le> MAX_BATCH_SIZE"
        by simp
      show ?thesis
        using under by (simp add: put_records_item_full [OF full c r m szd])
    qed
    show ?thesis
      using True c by (simp add: item)
  next
    case False
    then have nfull: "length (record_buf p) \<noteq> MAX_RECORDS_IN_BATCH"
      by (simp add: MAX_RECORDS_IN_BATCH_def)
    show ?thesis
    proof (cases "MAX_BATCH_SIZE < buf_size p + sizeof_datum E d")
      case over: True
      have item: "put_records_item E pk ehk r resp n (p, w) =
          (case flush_append E resp (p, w2) of
             (Inl e, pw3) \<Rightarrow> (Inl e, pw3)
           | (Inr resp3, p3, w3) \<Rightarrow>
               (Inr resp3,
                p3\<lparr>record_buf := record_buf p3 @ [d],
                   buf_size := buf_size p3 + sizeof_datum E d\<rparr>,
                w3))"
        using nfull r m over
        by (simp add: put_records_item_def flush_if_full_def add_datum_def Let_def)
      show ?thesis
      proof (cases "record_buf p = []")
        case empty: True
        show ?thesis
          using False over empty c2
          by (simp add: item flush_append_def flush_empty [OF empty])
      next
        case ne: False
        from assms obtain fr where
          c: "client_put_records E (calls w2) (record_buf p) (stream_name p) = Inr fr"
          unfolding put_records_succeeds_def by blast
        show ?thesis
          using False over ne c c2
          by (simp add: item flush_append_def flush_returns [OF ne c])
      qed
    next
      case under: False
      then have sz: "buf_size p + sizeof_datum E d \<le> MAX_BATCH_SIZE"
        by simp
      show ?thesis
        using False under c2 by (simp add: put_records_item_plain [OF nfull r m sz])
    qed
  qed
next
  assume h: "length rs = 501 \<and> record_buf p = [] \<and> buf_size p = 0 \<and>
      (\<forall>r \<in> set rs. sizeof_bytes E r \<le> MAX_RECORD_SIZE) \<and>
      sum_list (map (sizeof_datum E) (fst (make_datums E pk ehk rs w))) \<le> MAX_BATCH_SIZE"
  define xs where "xs = take 500 rs"
  define x where "x = rs ! 500"
  define ds where "ds = fst (make_datums E pk ehk xs w)"
  define w1 where "w1 = snd (make_datums E pk ehk xs w)"
  obtain d w2 where m: "make_datum E pk ehk x w1 = (d, w2)"
    by (cases "make_datum E pk ehk x w1")
  from h have len: "length rs = 501" and e: "record_buf p = []" and z: "buf_size p = 0"
    and small: "\<forall>r \<in> set rs. sizeof_bytes E r \<le> MAX_RECORD_SIZE"
    and total: "sum_list (map (sizeof_datum E) (fst (make_datums E pk ehk rs w))) \<le> MAX_BATCH_SIZE"
    by simp_all
  have dr: "drop 500 rs = [x]"
  proof -
    have "length (drop 500 rs) = 1" using len by simp
    then obtain y where y: "drop 500 rs = [y]"
      by (cases "drop 500 rs") auto
    have "y = drop 500 rs ! 0" using y by simp
    also have "\<dots> = rs ! 500" using len by simp
    finally show ?thesis using y by (simp add: x_def)
  qed
  have rs: "rs = xs @ [x]"
    using append_take_drop_id [of 500 rs] dr by (simp add: xs_def)
  have lxs: "length xs = 500"
    using len by (simp add: xs_def)
  have md: "make_datums E pk ehk rs w = (ds @ [d], w2)"
    unfolding rs by (simp add: make_datums_append ds_def [symmetric] w1_def [symmetric] m)
  have lds: "length ds = 500"
    using lxs by (simp add: ds_def make_datums_length)
  have cw1: "calls w1 = calls w"
    by (simp add: w1_def make_datums_keeps_calls)
  have a1: "\<forall>r \<in> set xs. sizeof_bytes E r \<le> MAX_RECORD_SIZE"
    using small rs by (metis Un_iff set_append)
  have a2: "length (record_buf p) + length xs \<le> MAX_RECORDS_IN_BATCH"
    using e lxs by (simp add: MAX_RECORDS_IN_BATCH_def)
  have a3: "buf_size p + sum_list (map (sizeof_datum E) (fst (make_datums E pk ehk xs w)))
      \<le> MAX_BATCH_SIZE"
    using total z by (simp add: md ds_def)
  define p1 where "p1 = p\<lparr>record_buf := ds, buf_size := sum_list (map (sizeof_datum E) ds)\<rparr>"
  have first: "put_records_loop E pk ehk xs [] 1 (p, w) = (Inr [], p1, w1)"
    unfolding put_records_loop_fill [OF a1 a2 a3]
    by (simp add: p1_def ds_def w1_def e z)
  have full: "length (record_buf p1) = MAX_RECORDS_IN_BATCH"
    using lds by (simp add: p1_def MAX_RECORDS_IN_BATCH_def)
  from assms obtain fr where
    c: "client_put_records E (calls w1) (record_buf p1) (stream_name p1) = Inr fr"
    unfolding put_records_succeeds_def by blast
  have x: "sizeof_bytes E x \<le> MAX_RECORD_SIZE"
    using small rs by (metis Un_iff list.set_intros(1) set_append)
  have szd: "sizeof_datum E d \<le> MAX_BATCH_SIZE"
    using total by (simp add: md)
  note last = put_records_item_full [OF full c x m szd]
  have run: "put_records E rs pk ehk (p, w) =
      (Inr [Some fr], p1\<lparr>record_buf := [d], buf_size := sizeof_datum E d\<rparr>,
       w2\<lparr>calls := calls w1 @ [PutRecordsCall (record_buf p1) (stream_name p1)]\<rparr>)"
    unfolding put_records_def rs put_records_loop_append first
    by (simp add: last)
  have dd: "d_Data d = x"
    using make_datum_Data [of E pk ehk x w1] m by simp
  have "client_put_records E (calls w) ds (stream_name p) = Inr fr"
    using c by (simp add: p1_def cw1)
  moreover have "calls (w2\<lparr>calls := calls w1 @ [PutRecordsCall (record_buf p1) (stream_name p1)]\<rparr>) =
      calls w @ [PutRecordsCall ds (stream_name p)]"
    by (simp add: p1_def cw1)
  moreover have "map d_Data ds = xs"
    by (simp add: ds_def make_datums_Data)
  moreover have "map d_Data (record_buf (p1\<lparr>record_buf := [d], buf_size := sizeof_datum E d\<rparr>)) =
      drop 500 rs"
    by (simp add: dr dd)
  ultimately show "\<exists>fr p' w'.
           client_put_records E (calls w) (fst (make_datums E pk ehk (take 500 rs) w))
             (stream_name p) = Inr fr \<and>
           put_records E rs pk ehk (p, w) = (Inr [Some fr], p', w') \<and>
           calls w' =
             calls w @ [PutRecordsCall (fst (make_datums E pk ehk (take 500 rs) w)) (stream_name p)] \<and>
           map d_Data (fst (make_datums E pk ehk (take 500 rs) w)) = take 500 rs \<and>
           length (record_buf p') = 1 \<and>
           map d_Data (record_buf p') = drop 500 rs"
    using run unfolding ds_def [symmetric] xs_def [symmetric] by simp
qed

theorem batch_sent_only_when_full_or_over_size_witness:
  "put_records_succeeds test_env \<and>
   fst (put_records test_env (replicate 501 [1, 2, 3, 4, 5, 6, 7, 8, 9, 10]) (Some ''k'') None
          (init ''orders'' False, new_world)) =
     Inr [Some [''FailedRecordCount'' \<mapsto> ''0'']] \<and>
   calls (snd (snd (put_records test_env (replicate 501 [1, 2, 3, 4, 5, 6, 7, 8, 9, 10])
          (Some ''k'') None (init ''orders'' False, new_world)))) =
     [PutRecordsCall
        (replicate 500
           \<lparr>d_ExplicitHashKey = None, d_PartitionKey = Some ''k'',
              d_Data = [1, 2, 3, 4, 5, 6, 7, 8, 9, 10]\<rparr>) ''orders''] \<and>
   length (record_buf (fst (snd (put_records test_env
          (replicate 501 [1, 2, 3, 4, 5, 6, 7, 8, 9, 10]) (Some ''k'') None
          (init ''orders'' False, new_world))))) = 1 \<and>
   map d_Data (record_buf (fst (snd (put_records test_env
          (replicate 501 [1, 2, 3, 4, 5, 6, 7, 8, 9, 10]) (Some ''k'') None
          (init ''orders'' False, new_world))))) = [[1, 2, 3, 4, 5, 6, 7, 8, 9, 10]]"
proof -
  let ?r = "[1, 2, 3, 4, 5, 6, 7, 8, 9, 10] :: bytes"
  let ?d = "\<lparr>d_ExplicitHashKey = None, d_PartitionKey = Some ''k'', d_Data = ?r\<rparr>"
  let ?p = "init ''orders'' False"
  have md: "make_datums test_env (Some ''k'') None (replicate n ?r) w =
      (replicate n ?d, w)" for n w
    by (simp add: make_datums_keyed)
  have sz: "sizeof_datum test_env ?d = 11"
    by (simp add: test_env_def spec_sizeof_datum_def)
  have h: "length (replicate 501 ?r) = 501 \<and> record_buf ?p = [] \<and> buf_size ?p = 0 \<and>
      (\<forall>r \<in> set (replicate 501 ?r). sizeof_bytes test_env r \<le> MAX_RECORD_SIZE) \<and>
      sum_list (map (sizeof_datum test_env)
        (fst (make_datums test_env (Some ''k'') None (replicate 501 ?r) new_world)))
        \<le> MAX_BATCH_SIZE"
  proof -
    have small: "\<forall>r \<in> set (replicate 501 ?r). sizeof_bytes test_env r \<le> MAX_RECORD_SIZE"
      by (simp add: test_env_def spec_sizeof_bytes_def MAX_RECORD_SIZE_def)
    have total: "sum_list (map (sizeof_datum test_env)
        (fst (make_datums test_env (Some ''k'') None (replicate 501 ?r) new_world)))
        \<le> MAX_BATCH_SIZE"
      by (simp add: md sz sum_list_replicate MAX_BATCH_SIZE_def MAX_RECORD_SIZE_def)
    have "length (replicate 501 ?r) = 501 \<and> record_buf ?p = [] \<and> buf_size ?p = 0"
      by (simp add: init_def)
    with small total show ?thesis by blast
  qed
  from batch_sent_only_when_full_or_over_size [OF test_env_succeeds, where rs = "replicate 501 ?r" and p = ?p
      and pk = "Some ''k''" and ehk = None and w = new_world] h
  obtain fr p' w' where
    c: "client_put_records test_env (calls new_world)
          (fst (make_datums test_env (Some ''k'') None (take 500 (replicate 501 ?r)) new_world))
          (stream_name ?p) = Inr fr" and
    run: "put_records test_env (replicate 501 ?r) (Some ''k'') None (?p, new_world) =
          (Inr [Some fr], p', w')" and
    cs: "calls w' = calls new_world @
          [PutRecordsCall
             (fst (make_datums test_env (Some ''k'') None (take 500 (replicate 501 ?r)) new_world))
             (stream_name ?p)]" and
    one: "length (record_buf p') = 1" and
    left: "map d_Data (record_buf p') = drop 500 (replicate 501 ?r)"
    by blast
  have fr: "fr = [''FailedRecordCount'' \<mapsto> ''0'']"
    using c by (simp add: test_env_def)
  have cs': "calls w' = [PutRecordsCall (replicate 500 ?d) ''orders'']"
    using cs by (simp add: md new_world_def init_def)
  have left': "map d_Data (record_buf p') = [?r]"
    using left by simp
  show ?thesis
    using test_env_succeeds run fr cs' one left' by simp
qed

subsection \<open>The batch size\<close>

text \<open>
  C7. An item that reaches the check of line 109 with the buffer as it was (fewer or
  more than 500 datums, the record within 1 MiB) and whose datum would take the running
  size over 5 MiB: the buffer is flushed first. If it holds datums and the client accepts
  them, the response is appended to the result list and the new datum is alone in the
  buffer, the running size being its size; if the client raises, the exception reaches
  the caller and nothing is added. If the buffer is empty there is nothing to send: the
  \<^verbatim>\<open>None\<close> that \<^verbatim>\<open>flush\<close> returns is appended and the datum is added all the same.
\<close>

theorem size_flush_before_add:
  assumes "length (record_buf p) \<noteq> 500"
    and "sizeof_bytes E r \<le> MAX_RECORD_SIZE"
    and "make_datum E pk ehk r w = (d, w2)"
    and "MAX_BATCH_SIZE < buf_size p + sizeof_datum E d"
  shows
    "(record_buf p \<noteq> [] \<and>
      client_put_records E (calls w) (record_buf p) (stream_name p) = Inr fr \<longrightarrow>
        put_records_item E pk ehk r resp n (p, w) =
          (Inr (resp @ [Some fr]),
           p\<lparr>record_buf := [d], buf_size := sizeof_datum E d\<rparr>,
           w2\<lparr>calls := calls w @ [PutRecordsCall (record_buf p) (stream_name p)]\<rparr>)) \<and>
     (record_buf p \<noteq> [] \<and>
      client_put_records E (calls w) (record_buf p) (stream_name p) = Inl e \<longrightarrow>
        put_records_item E pk ehk r resp n (p, w) =
          (Inl (ClientError e), p,
           w2\<lparr>calls := calls w @ [PutRecordsCall (record_buf p) (stream_name p)]\<rparr>)) \<and>
     (record_buf p = [] \<longrightarrow>
        put_records_item E pk ehk r resp n (p, w) =
          (Inr (resp @ [None]),
           p\<lparr>record_buf := [d], buf_size := buf_size p + sizeof_datum E d\<rparr>, w2))"
proof -
  have c2: "calls w2 = calls w"
    using make_datum_keeps_calls [of E pk ehk r w] assms(3) by simp
  from assms(1) have nfull: "length (record_buf p) \<noteq> MAX_RECORDS_IN_BATCH"
    by (simp add: MAX_RECORDS_IN_BATCH_def)
  have item: "put_records_item E pk ehk r resp n (p, w) =
      (case flush_append E resp (p, w2) of
         (Inl e, pw3) \<Rightarrow> (Inl e, pw3)
       | (Inr resp3, p3, w3) \<Rightarrow>
           (Inr resp3,
            p3\<lparr>record_buf := record_buf p3 @ [d], buf_size := buf_size p3 + sizeof_datum E d\<rparr>,
            w3))"
    using nfull assms(2,3,4)
    by (simp add: put_records_item_def flush_if_full_def add_datum_def Let_def)
  show ?thesis
  proof (intro conjI impI)
    assume "record_buf p \<noteq> [] \<and>
      client_put_records E (calls w) (record_buf p) (stream_name p) = Inr fr"
    then have ne: "record_buf p \<noteq> []"
      and c: "client_put_records E (calls w2) (record_buf p) (stream_name p) = Inr fr"
      by (simp_all add: c2)
    show "put_records_item E pk ehk r resp n (p, w) =
          (Inr (resp @ [Some fr]),
           p\<lparr>record_buf := [d], buf_size := sizeof_datum E d\<rparr>,
           w2\<lparr>calls := calls w @ [PutRecordsCall (record_buf p) (stream_name p)]\<rparr>)"
      by (simp add: item flush_append_def flush_returns [OF ne c] c2)
  next
    assume "record_buf p \<noteq> [] \<and>
      client_put_records E (calls w) (record_buf p) (stream_name p) = Inl e"
    then have ne: "record_buf p \<noteq> []"
      and c: "client_put_records E (calls w2) (record_buf p) (stream_name p) = Inl e"
      by (simp_all add: c2)
    show "put_records_item E pk ehk r resp n (p, w) =
          (Inl (ClientError e), p,
           w2\<lparr>calls := calls w @ [PutRecordsCall (record_buf p) (stream_name p)]\<rparr>)"
      by (simp add: item flush_append_def flush_raises [OF ne c] c2)
  next
    assume e: "record_buf p = []"
    show "put_records_item E pk ehk r resp n (p, w) =
          (Inr (resp @ [None]),
           p\<lparr>record_buf := [d], buf_size := buf_size p + sizeof_datum E d\<rparr>, w2)"
      by (simp add: item flush_append_def flush_empty [OF e] e)
  qed
qed

theorem size_flush_before_add_witness:
  "put_records test_env (replicate 3 (replicate 1048576 0)) (Some (replicate 664098 CHR ''k''))
     None (init ''orders'' True, new_world) =
     (Inr [],
      (init ''orders'' True)
        \<lparr>record_buf :=
           replicate 3
             \<lparr>d_ExplicitHashKey = None, d_PartitionKey = Some (replicate 664098 CHR ''k''),
                d_Data = replicate 1048576 0\<rparr>,
         buf_size := 5138022\<rparr>,
      new_world) \<and>
   put_records test_env [replicate 204800 0] (Some ''k'') None
     ((init ''orders'' True)
        \<lparr>record_buf :=
           replicate 3
             \<lparr>d_ExplicitHashKey = None, d_PartitionKey = Some (replicate 664098 CHR ''k''),
                d_Data = replicate 1048576 0\<rparr>,
         buf_size := 5138022\<rparr>,
      new_world) =
     (Inr [Some [''FailedRecordCount'' \<mapsto> ''0'']],
      (init ''orders'' True)
        \<lparr>record_buf :=
           [\<lparr>d_ExplicitHashKey = None, d_PartitionKey = Some ''k'',
              d_Data = replicate 204800 0\<rparr>],
         buf_size := 204801\<rparr>,
      \<lparr>calls =
         [PutRecordsCall
            (replicate 3
               \<lparr>d_ExplicitHashKey = None, d_PartitionKey = Some (replicate 664098 CHR ''k''),
                  d_Data = replicate 1048576 0\<rparr>)
            ''orders''],
       ticks = 0\<rparr>)"
proof -
  let ?big = "\<lparr>d_ExplicitHashKey = None, d_PartitionKey = Some (replicate 664098 CHR ''k''),
                d_Data = replicate 1048576 0\<rparr>"
  let ?p = "(init ''orders'' True)\<lparr>record_buf := replicate 3 ?big, buf_size := 5138022\<rparr>"
  let ?d = "\<lparr>d_ExplicitHashKey = None, d_PartitionKey = Some ''k'',
              d_Data = replicate 204800 0\<rparr>"
  have before: "put_records test_env (replicate 3 (replicate 1048576 0))
      (Some (replicate 664098 CHR ''k'')) None (init ''orders'' True, new_world) =
      (Inr [], ?p, new_world)"
    using test_env_fill [of 3 "replicate 1048576 0" "replicate 664098 CHR ''k''" "''orders''" True]
    by simp
  have a1: "length (record_buf ?p) \<noteq> 500"
    by simp
  have a2: "sizeof_bytes test_env (replicate 204800 0) \<le> MAX_RECORD_SIZE"
    by (simp add: test_env_def spec_sizeof_bytes_def MAX_RECORD_SIZE_def)
  have a3: "make_datum test_env (Some ''k'') None (replicate 204800 0) new_world = (?d, new_world)"
    by (simp add: make_datum_def)
  have a4: "MAX_BATCH_SIZE < buf_size ?p + sizeof_datum test_env ?d"
    by (simp add: test_env_def spec_sizeof_datum_def MAX_BATCH_SIZE_def MAX_RECORD_SIZE_def)
  have ne: "record_buf ?p \<noteq> []"
    by simp
  have c: "client_put_records test_env (calls new_world) (record_buf ?p) (stream_name ?p) =
      Inr [''FailedRecordCount'' \<mapsto> ''0'']"
    by (simp add: test_env_def)
  from size_flush_before_add [OF a1 a2 a3 a4, where fr = "[''FailedRecordCount'' \<mapsto> ''0'']"
      and resp = "[]" and n = 1] ne c
  have "put_records_item test_env (Some ''k'') None (replicate 204800 0) [] 1 (?p, new_world) =
          (Inr ([] @ [Some [''FailedRecordCount'' \<mapsto> ''0'']]),
           ?p\<lparr>record_buf := [?d], buf_size := sizeof_datum test_env ?d\<rparr>,
           new_world\<lparr>calls := calls new_world @
             [PutRecordsCall (record_buf ?p) (stream_name ?p)]\<rparr>)"
    by blast
  then have after: "put_records test_env [replicate 204800 0] (Some ''k'') None (?p, new_world) =
     (Inr [Some [''FailedRecordCount'' \<mapsto> ''0'']],
      (init ''orders'' True)\<lparr>record_buf := [?d], buf_size := 204801\<rparr>,
      \<lparr>calls = [PutRecordsCall (replicate 3 ?big) ''orders''], ticks = 0\<rparr>)"
    by (simp add: put_records_def test_env_def spec_sizeof_datum_def new_world_def init_def)
  from before after show ?thesis by (rule conjI)
qed

subsection \<open>Records over 1 MiB\<close>

text \<open>
  The claim C4 as stated fails: with 500 datums in the buffer, a call with the single
  record of 1 MiB and one byte raises the \<^verbatim>\<open>ValueError\<close>, and the buffer is not what it
  was before the call: it has been flushed.
\<close>

theorem oversized_single_record_changes_full_buffer:
  "length (record_buf (fst (snd (put_records test_env (replicate 500 [1]) (Some ''k'') None
      (init ''orders'' True, new_world))))) = 500 \<and>
   fst (put_records test_env [replicate 1048577 0] (Some ''k'') None
     (snd (put_records test_env (replicate 500 [1]) (Some ''k'') None
        (init ''orders'' True, new_world)))) =
     Inl (ValueError 1 MAX_RECORD_SIZE 1048577 (replicate 1048577 0)) \<and>
   record_buf (fst (snd (put_records test_env [replicate 1048577 0] (Some ''k'') None
     (snd (put_records test_env (replicate 500 [1]) (Some ''k'') None
        (init ''orders'' True, new_world)))))) = [] \<and>
   record_buf (fst (snd (put_records test_env [replicate 1048577 0] (Some ''k'') None
     (snd (put_records test_env (replicate 500 [1]) (Some ''k'') None
        (init ''orders'' True, new_world)))))) \<noteq>
   record_buf (fst (snd (put_records test_env (replicate 500 [1]) (Some ''k'') None
      (init ''orders'' True, new_world))))"
proof -
  let ?d = "\<lparr>d_ExplicitHashKey = None, d_PartitionKey = Some ''k'', d_Data = [1]\<rparr>"
  let ?p = "(init ''orders'' True)\<lparr>record_buf := replicate 500 ?d, buf_size := 1000\<rparr>"
  have before: "put_records test_env (replicate 500 [1]) (Some ''k'') None
      (init ''orders'' True, new_world) = (Inr [], ?p, new_world)"
    using test_env_fill [of 500 "[1]" "''k''" "''orders''" True] by simp
  have full: "length (record_buf ?p) = MAX_RECORDS_IN_BATCH"
    by (simp add: MAX_RECORDS_IN_BATCH_def)
  have c: "client_put_records test_env (calls new_world) (record_buf ?p) (stream_name ?p) =
      Inr [''FailedRecordCount'' \<mapsto> ''0'']"
    by (simp add: test_env_def)
  have big: "MAX_RECORD_SIZE < sizeof_bytes test_env (replicate 1048577 0)"
    by (simp add: test_env_def spec_sizeof_bytes_def MAX_RECORD_SIZE_def)
  have sz: "sizeof_bytes test_env (replicate 1048577 0) = 1048577"
    by (simp add: test_env_def spec_sizeof_bytes_def)
  have after: "put_records test_env [replicate 1048577 0] (Some ''k'') None (?p, new_world) =
      (Inl (ValueError 1 MAX_RECORD_SIZE 1048577 (replicate 1048577 0)),
       ?p\<lparr>record_buf := [], buf_size := 0\<rparr>,
       new_world\<lparr>calls := calls new_world @ [PutRecordsCall (record_buf ?p) (stream_name ?p)]\<rparr>)"
    unfolding put_records_def
    by (simp add: put_records_item_full_oversized [OF full c big] sz)
  have ne: "replicate 500 ?d \<noteq> []"
    by simp
  show ?thesis
    unfolding before snd_conv fst_conv after using ne by simp
qed

text \<open>
  C4, as amended. A client that accepts every batch, records \<open>pre\<close> within 1 MiB each,
  then a record \<open>bad\<close> over 1 MiB, then any records \<open>post\<close>: the call on \<open>pre\<close> alone
  returns, and the call on all of them raises the \<^verbatim>\<open>ValueError\<close> that carries the number
  of \<open>bad\<close> (counting from 1), the limit of 1 MiB and the size of \<open>bad\<close>. It leaves the
  producer as the call on \<open>pre\<close> alone leaves it, but for one case: if the buffer then
  holds 500 datums, they have been sent to the client and the buffer is empty. Neither
  \<open>bad\<close> nor a record of \<open>post\<close> is added to the buffer.
\<close>

theorem oversized_record_rejected:
  assumes "put_records_succeeds E"
    and "\<forall>r \<in> set pre. sizeof_bytes E r \<le> MAX_RECORD_SIZE"
    and "MAX_RECORD_SIZE < sizeof_bytes E bad"
  shows "\<exists>resp1 p1 w1.
           put_records E pre pk ehk (p, w) = (Inr resp1, p1, w1) \<and>
           put_records E (pre @ bad # post) pk ehk (p, w) =
             (Inl (ValueError (length pre + 1) MAX_RECORD_SIZE (sizeof_bytes E bad) bad),
              if length (record_buf p1) = 500
              then (p1\<lparr>record_buf := [], buf_size := 0\<rparr>,
                    w1\<lparr>calls := calls w1 @ [PutRecordsCall (record_buf p1) (stream_name p1)]\<rparr>)
              else (p1, w1))"
proof -
  from put_records_loop_succeeds [OF assms(1,2), of pk ehk "[]" 1 p w] obtain resp1 p1 w1 where
    first: "put_records_loop E pk ehk pre [] 1 (p, w) = (Inr resp1, p1, w1)"
    by blast
  have rest: "put_records_loop E pk ehk (bad # post) resp1 (1 + length pre) (p1, w1) =
      (Inl (ValueError (length pre + 1) MAX_RECORD_SIZE (sizeof_bytes E bad) bad),
       if length (record_buf p1) = 500
       then (p1\<lparr>record_buf := [], buf_size := 0\<rparr>,
             w1\<lparr>calls := calls w1 @ [PutRecordsCall (record_buf p1) (stream_name p1)]\<rparr>)
       else (p1, w1))"
  proof (cases "length (record_buf p1) = 500")
    case True
    then have full: "length (record_buf p1) = MAX_RECORDS_IN_BATCH"
      by (simp add: MAX_RECORDS_IN_BATCH_def)
    from assms(1) obtain fr where
      c: "client_put_records E (calls w1) (record_buf p1) (stream_name p1) = Inr fr"
      unfolding put_records_succeeds_def by blast
    show ?thesis
      using True by (simp add: put_records_item_full_oversized [OF full c assms(3)])
  next
    case False
    then have nfull: "length (record_buf p1) \<noteq> MAX_RECORDS_IN_BATCH"
      by (simp add: MAX_RECORDS_IN_BATCH_def)
    show ?thesis
      using False by (simp add: put_records_item_oversized [OF nfull assms(3)])
  qed
  have "put_records E pre pk ehk (p, w) = (Inr resp1, p1, w1)"
    using first by (simp add: put_records_def)
  moreover have "put_records E (pre @ bad # post) pk ehk (p, w) =
      (Inl (ValueError (length pre + 1) MAX_RECORD_SIZE (sizeof_bytes E bad) bad),
       if length (record_buf p1) = 500
       then (p1\<lparr>record_buf := [], buf_size := 0\<rparr>,
             w1\<lparr>calls := calls w1 @ [PutRecordsCall (record_buf p1) (stream_name p1)]\<rparr>)
       else (p1, w1))"
    unfolding put_records_def put_records_loop_append first using rest by simp
  ultimately show ?thesis by blast
qed

theorem oversized_record_rejected_witness:
  "put_records_succeeds test_env \<and>
   sizeof_bytes test_env [1] \<le> MAX_RECORD_SIZE \<and>
   sizeof_bytes test_env [2] \<le> MAX_RECORD_SIZE \<and>
   MAX_RECORD_SIZE < sizeof_bytes test_env (replicate 1048577 0) \<and>
   put_records test_env ([[1], [2]] @ replicate 1048577 0 # [[3]]) (Some ''k'') None
     (init ''orders'' True, new_world) =
     (Inl (ValueError 3 MAX_RECORD_SIZE 1048577 (replicate 1048577 0)),
      (init ''orders'' True)
        \<lparr>record_buf :=
           [\<lparr>d_ExplicitHashKey = None, d_PartitionKey = Some ''k'', d_Data = [1]\<rparr>,
            \<lparr>d_ExplicitHashKey = None, d_PartitionKey = Some ''k'', d_Data = [2]\<rparr>],
         buf_size := 4\<rparr>,
      new_world)"
proof -
  let ?p = "(init ''orders'' True)
        \<lparr>record_buf :=
           [\<lparr>d_ExplicitHashKey = None, d_PartitionKey = Some ''k'', d_Data = [1]\<rparr>,
            \<lparr>d_ExplicitHashKey = None, d_PartitionKey = Some ''k'', d_Data = [2]\<rparr>],
         buf_size := 4\<rparr>"
  have small: "sizeof_bytes test_env [1] \<le> MAX_RECORD_SIZE"
    "sizeof_bytes test_env [2] \<le> MAX_RECORD_SIZE"
    by (simp_all add: test_env_def spec_sizeof_bytes_def MAX_RECORD_SIZE_def)
  then have pre: "\<forall>r \<in> set [[1], [2]]. sizeof_bytes test_env r \<le> MAX_RECORD_SIZE"
    by simp
  have big: "MAX_RECORD_SIZE < sizeof_bytes test_env (replicate 1048577 0)"
    by (simp add: test_env_def spec_sizeof_bytes_def MAX_RECORD_SIZE_def)
  have sz: "sizeof_bytes test_env (replicate 1048577 0) = 1048577"
    by (simp add: test_env_def spec_sizeof_bytes_def)
  have first: "put_records test_env [[1], [2]] (Some ''k'') None (init ''orders'' True, new_world) =
      (Inr [], ?p, new_world)"
    by (simp add: put_records_def put_records_item_def flush_if_full_def add_datum_def
        make_datum_def test_env_def spec_sizeof_bytes_def spec_sizeof_datum_def init_def
        MAX_RECORDS_IN_BATCH_def MAX_RECORD_SIZE_def MAX_BATCH_SIZE_def)
  from oversized_record_rejected [OF test_env_succeeds pre big, of "Some ''k''" None
      "init ''orders'' True" new_world "[[3]]"]
  obtain resp1 p1 w1 where
    one: "put_records test_env [[1], [2]] (Some ''k'') None (init ''orders'' True, new_world) =
            (Inr resp1, p1, w1)" and
    all: "put_records test_env ([[1], [2]] @ replicate 1048577 0 # [[3]]) (Some ''k'') None
            (init ''orders'' True, new_world) =
            (Inl (ValueError (length [[1 :: 8 word], [2]] + 1) MAX_RECORD_SIZE
               (sizeof_bytes test_env (replicate 1048577 0)) (replicate 1048577 0)),
             if length (record_buf p1) = 500
             then (p1\<lparr>record_buf := [], buf_size := 0\<rparr>,
                   w1\<lparr>calls := calls w1 @ [PutRecordsCall (record_buf p1) (stream_name p1)]\<rparr>)
             else (p1, w1))"
    by blast
  from one first have "p1 = ?p" "w1 = new_world"
    by simp_all
  with all have "put_records test_env ([[1], [2]] @ replicate 1048577 0 # [[3]]) (Some ''k'') None
     (init ''orders'' True, new_world) =
     (Inl (ValueError 3 MAX_RECORD_SIZE 1048577 (replicate 1048577 0)), ?p, new_world)"
    by (simp add: sz)
  with test_env_succeeds small big show ?thesis by blast
qed

end
